theory Spec2Isabelle
  imports Complex_Main
begin

section \<open>Text helpers of the Python runtime\<close>

text \<open>
  Python strings are modelled as HOL strings.  \<open>str.strip()\<close> without arguments removes
  leading and trailing whitespace; for code points below 256 the whitespace characters of
  Python are the ones listed in \<open>isspace\<close>.
\<close>

definition isspace :: "char \<Rightarrow> bool" where
  "isspace c = ((of_char c :: nat) \<in> {9, 10, 11, 12, 13, 28, 29, 30, 31, 32, 133, 160})"

definition lstrip :: "string \<Rightarrow> string" where
  "lstrip s = dropWhile isspace s"

definition rstrip :: "string \<Rightarrow> string" where
  "rstrip s = rev (dropWhile isspace (rev s))"

definition strip :: "string \<Rightarrow> string" where
  "strip s = rstrip (lstrip s)"

text \<open>\<open>str(n)\<close> for a non-negative integer: its decimal digits.\<close>

definition digit_char :: "nat \<Rightarrow> char" where
  "digit_char d = ''0123456789'' ! d"

fun str_nat :: "nat \<Rightarrow> string" where
  "str_nat n = (if n < 10 then [digit_char n] else str_nat (n div 10) @ [digit_char (n mod 10)])"

declare str_nat.simps [simp del]

text \<open>
  \<open>title.split(' ')\<close>: the pieces between single spaces.  The result is never empty;
  the empty string gives one empty word and two adjacent spaces give an empty word.
\<close>

fun split_sp :: "string \<Rightarrow> string list" where
  "split_sp [] = [[]]"
| "split_sp (c # cs) =
     (if c = CHR '' '' then [] # split_sp cs
      else (case split_sp cs of [] \<Rightarrow> [[c]] | word # words \<Rightarrow> (c # word) # words))"

section \<open>sanitize\_filename\<close>

text \<open>The character class of the regular expression \<^verbatim>\<open>[\\/*?:"<>|]\<close>.\<close>

definition forbidden :: "char list" where
  "forbidden = [CHR 0x5C, CHR ''/'', CHR ''*'', CHR ''?'', CHR '':'', CHR 0x22,
                CHR ''<'', CHR ''>'', CHR ''|'']"

definition sanitize_filename :: "string \<Rightarrow> string" where
  "sanitize_filename name = strip (filter (\<lambda>c. c \<notin> set forbidden) name)"

section \<open>Exceptions\<close>

text \<open>
  The exceptions the script can meet, each carrying the text that \<open>str(e)\<close> prints.
  \<open>RequestException\<close> stands for \<open>requests.exceptions.RequestException\<close> and its subclasses
  (connection errors, and the \<open>HTTPError\<close> of \<open>raise_for_status\<close>); \<open>ValueError\<close> is what
  Book Discovery raises for a missing structure; \<open>AttributeError\<close> and \<open>KeyError\<close> are the
  interpreter's own; \<open>RuntimeError\<close> is what the document writer raises for an image it
  cannot embed.
\<close>

datatype exn =
    RequestException string
  | ValueError string
  | AttributeError string
  | KeyError string
  | RuntimeError string

fun exn_str :: "exn \<Rightarrow> string" where
  "exn_str (RequestException m) = m"
| "exn_str (ValueError m) = m"
| "exn_str (AttributeError m) = m"
| "exn_str (KeyError m) = m"
| "exn_str (RuntimeError m) = m"

fun is_RequestException :: "exn \<Rightarrow> bool" where
  "is_RequestException (RequestException m) = True"
| "is_RequestException e = False"

section \<open>The parsed page\<close>

text \<open>
  The node tree that the HTML parser hands back: an element with its name, its list of
  classes, its other attributes and its children, or a piece of text.  The soup itself is
  the root element; every query looks at the descendants of the node it is asked on, in
  document order.
\<close>

datatype html =
    Tag string "string list" "(string \<times> string) list" "html list"
  | NavigableString string

fun descendants :: "html \<Rightarrow> html list" where
  "descendants (Tag n cl a kids) = concat (map (\<lambda>k. k # descendants k) kids)"
| "descendants (NavigableString s) = []"

fun is_tag :: "string \<Rightarrow> html \<Rightarrow> bool" where
  "is_tag n (Tag m cl a kids) = (m = n)"
| "is_tag n (NavigableString s) = False"

text \<open>
  The \<open>class_\<close> filter: a tag matches when one of its classes is the wanted string, or when
  its classes joined by single spaces are the wanted string (how \<open>'tree well'\<close> is matched).
\<close>

fun unwords :: "string list \<Rightarrow> string" where
  "unwords [] = []"
| "unwords [w] = w"
| "unwords (w # ws) = w @ '' '' @ unwords ws"

fun has_class :: "string \<Rightarrow> html \<Rightarrow> bool" where
  "has_class c (Tag n cl a kids) = (c \<in> set cl \<or> unwords cl = c)"
| "has_class c (NavigableString s) = False"

fun get_attr :: "html \<Rightarrow> string \<Rightarrow> string option" where
  "get_attr (Tag n cl a kids) k = map_of a k"
| "get_attr (NavigableString s) k = None"

definition find_all :: "html \<Rightarrow> string \<Rightarrow> html list" where
  "find_all node n = filter (is_tag n) (descendants node)"

text \<open>
  \<open>find_all(n, href=True)\<close>: the tags named \<open>n\<close> that carry an \<open>href\<close> attribute, each with
  the value of that attribute (so that \<open>a_tag['href']\<close> is always defined).
\<close>

definition find_all_href :: "html \<Rightarrow> string \<Rightarrow> (html \<times> string) list" where
  "find_all_href node n =
     List.map_filter (\<lambda>t. if is_tag n t then map_option (Pair t) (get_attr t ''href'') else None)
       (descendants node)"

definition find :: "html \<Rightarrow> string \<Rightarrow> html option" where
  "find node n = (case find_all node n of [] \<Rightarrow> None | t # ts \<Rightarrow> Some t)"

definition find_class :: "html \<Rightarrow> string \<Rightarrow> string \<Rightarrow> html option" where
  "find_class node n c =
     (case filter (\<lambda>t. is_tag n t \<and> has_class c t) (descendants node) of
        [] \<Rightarrow> None | t # ts \<Rightarrow> Some t)"

text \<open>\<open>tag.text\<close>: all the text below the node, concatenated.\<close>

fun strings :: "html \<Rightarrow> string list" where
  "strings (NavigableString s) = [s]"
| "strings (Tag n cl a kids) = concat (map strings kids)"

definition get_text :: "html \<Rightarrow> string" where
  "get_text node = concat (strings node)"

text \<open>
  \<open>get_text(separator=' ', strip=True)\<close>: every piece of text stripped, the empty ones
  dropped, the rest joined by one space.
\<close>

definition get_text_sep_strip :: "html \<Rightarrow> string" where
  "get_text_sep_strip node = unwords (filter (\<lambda>s. s \<noteq> []) (map strip (strings node)))"

text \<open>The loop \<open>for br in content_div.find_all("br"): br.replace_with("\n")\<close>.\<close>

fun replace_br :: "html \<Rightarrow> html" where
  "replace_br (NavigableString s) = NavigableString s"
| "replace_br (Tag n cl a kids) =
     Tag n cl a (map (\<lambda>k. if is_tag ''br'' k then NavigableString [CHR 0x0A] else replace_br k) kids)"

section \<open>The outside world\<close>

text \<open>
  What a run depends on and the script does not define: the HTTP client, the HTML parser,
  URL joining, the font files on disk, and the document writer's page geometry, text
  measure, line breaking and image sizing.  A font is its family, style and size.
\<close>

type_synonym font = "string \<times> string \<times> nat"

record response =
  status_code :: nat
  content :: string

record env =
  requests_get :: "string \<Rightarrow> exn + response"
  BeautifulSoup :: "string \<Rightarrow> html"
  urljoin :: "string \<Rightarrow> string \<Rightarrow> string"
  font_regular_exists :: bool
  font_bold_exists :: bool
  font_italic_exists :: bool
  pdf_w :: real
  pdf_h :: real
  l_margin :: real
  r_margin :: real
  t_margin :: real
  page_break_trigger :: real
  get_string_width :: "font \<Rightarrow> string \<Rightarrow> real"
  line_breaks :: "font \<Rightarrow> real \<Rightarrow> string \<Rightarrow> nat"
  image_height :: "string \<Rightarrow> real \<Rightarrow> exn + real"
  output_fails :: bool

text \<open>\<open>response.raise_for_status()\<close>: an error status (400 to 599) raises.\<close>

definition raise_for_status :: "response \<Rightarrow> exn + unit" where
  "raise_for_status r =
     (if 400 \<le> status_code r \<and> status_code r < 600
      then Inl (RequestException (str_nat (status_code r) @ '' Error''))
      else Inr ())"

section \<open>Book Discovery\<close>

record Chapter =
  title :: string
  url :: string

definition digilib_url :: string where
  "digilib_url = ''https://digilib.aua.am/book/3052/3602/24099/%D4%B3%D5%A1%D5%B6%D5%B4%D5%A5%D6%82%20%D5%A5%D6%82%20%D5%8F%D5%A1%D5%B2%D5%A5%D6%82''"

text \<open>
  Line 26 and 27 of the script: the first \<open>h1\<close> inside the first \<open>div\<close> inside the details
  panel.  Without a panel the tag is \<open>None\<close>.  With a panel, \<open>details_panel.find('div')\<close> is
  evaluated and \<open>.find('h1')\<close> is called on its result; when the panel holds no \<open>div\<close> that
  result is \<open>None\<close> and the call raises.
\<close>

definition book_title_tag :: "html \<Rightarrow> exn + html option" where
  "book_title_tag soup =
     (case find_class soup ''div'' ''product-details-panel'' of
        None \<Rightarrow> Inr None
      | Some details_panel \<Rightarrow>
          (case find details_panel ''div'' of
             None \<Rightarrow> Inl (AttributeError ''NoneType object has no attribute find'')
           | Some inner \<Rightarrow> Inr (find inner ''h1'')))"

definition chapter_links :: "env \<Rightarrow> string \<Rightarrow> html \<Rightarrow> Chapter list" where
  "chapter_links e main_url toc_div =
     map (\<lambda>(a_tag, href). \<lparr>title = strip (get_text a_tag), url = urljoin e main_url href\<rparr>)
       (find_all_href toc_div ''a'')"

definition get_book_details :: "env \<Rightarrow> string \<Rightarrow> exn + string \<times> Chapter list" where
  "get_book_details e main_url =
     (case requests_get e main_url of
        Inl err \<Rightarrow> Inl err
      | Inr response \<Rightarrow>
     (case raise_for_status response of
        Inl err \<Rightarrow> Inl err
      | Inr u \<Rightarrow>
     (let soup = BeautifulSoup e (content response) in
     (case book_title_tag soup of
        Inl err \<Rightarrow> Inl err
      | Inr tag \<Rightarrow>
     (let book_title = (case tag of Some t \<Rightarrow> strip (get_text t) | None \<Rightarrow> ''Untitled Book'') in
     (case find_class soup ''div'' ''tree well'' of
        None \<Rightarrow> Inl (ValueError ''Could not find the table of contents (div with class tree well).'')
      | Some toc_div \<Rightarrow>
     (let chapters = chapter_links e main_url toc_div in
      if chapters = [] then Inl (ValueError ''No chapters found in the table of contents.'')
      else Inr (book_title, chapters))))))))"

section \<open>The document writer\<close>

text \<open>
  The state of the document under construction, as far as the script reads it: the number
  of the current page (\<open>page_no()\<close>), the cursor (\<open>get_x()\<close>, \<open>get_y()\<close>), the selected font,
  and what has been drawn: each text with the page its first line went to, each image with
  its page.
\<close>

datatype item = Text nat string | Picture nat string

record pdf =
  page_no :: nat
  get_x :: real
  get_y :: real
  font :: font
  drawn :: "item list"

definition PDF :: pdf where
  "PDF = \<lparr>page_no = 0, get_x = 0, get_y = 0, font = ([], [], 12), drawn = []\<rparr>"

text \<open>
  The footer override of class \<open>PDF\<close>: the line \<open>Page n\<close> on the page being closed.  The
  writer calls it when a page ends; the cursor and font it sets are put back by the writer
  when the next page begins.
\<close>

definition footer :: "pdf \<Rightarrow> pdf" where
  "footer d = d\<lparr>drawn := drawn d @ [Text (page_no d) (''Page '' @ str_nat (page_no d))]\<rparr>"

definition add_page :: "env \<Rightarrow> pdf \<Rightarrow> pdf" where
  "add_page e d =
     (let d1 = (if 0 < page_no d then footer d else d)
      in d1\<lparr>page_no := page_no d1 + 1, get_x := l_margin e, get_y := t_margin e\<rparr>)"

definition set_font :: "font \<Rightarrow> pdf \<Rightarrow> pdf" where
  "set_font f d = d\<lparr>font := f\<rparr>"

definition ln :: "env \<Rightarrow> real \<Rightarrow> pdf \<Rightarrow> pdf" where
  "ln e h d = d\<lparr>get_x := l_margin e, get_y := get_y d + h\<rparr>"

definition set_xy :: "env \<Rightarrow> real \<Rightarrow> real \<Rightarrow> pdf \<Rightarrow> pdf" where
  "set_xy e px py d =
     d\<lparr>get_y := (if 0 \<le> py then py else pdf_h e + py),
       get_x := (if 0 \<le> px then px else pdf_w e + px)\<rparr>"

text \<open>
  The automatic page break: a cell or image of height \<open>h\<close> that would end below the trigger
  goes to a new page, at the same abscissa.
\<close>

definition page_break :: "env \<Rightarrow> real \<Rightarrow> pdf \<Rightarrow> pdf" where
  "page_break e h d =
     (if get_y d + h > page_break_trigger e then (add_page e d)\<lparr>get_x := get_x d\<rparr> else d)"

definition cell :: "env \<Rightarrow> real \<Rightarrow> real \<Rightarrow> string \<Rightarrow> nat \<Rightarrow> pdf \<Rightarrow> pdf" where
  "cell e cw h txt nl d =
     (let d1 = page_break e h d;
          cw1 = (if cw = 0 then pdf_w e - r_margin e - get_x d1 else cw);
          d2 = d1\<lparr>drawn := drawn d1 @ [Text (page_no d1) txt]\<rparr>
      in if 0 < nl
         then d2\<lparr>get_y := get_y d2 + h, get_x := (if nl = 1 then l_margin e else get_x d2)\<rparr>
         else d2\<lparr>get_x := get_x d2 + cw1\<rparr>)"

text \<open>
  \<open>multi_cell\<close> prints the text as one cell per line, each of height \<open>h\<close> and each with its
  own page-break check: the first line, then one more for every line break the writer puts
  into the text at this width (\<open>line_breaks\<close>).
\<close>

definition next_line :: "env \<Rightarrow> real \<Rightarrow> pdf \<Rightarrow> pdf" where
  "next_line e h d = (let d1 = page_break e h d in d1\<lparr>get_y := get_y d1 + h\<rparr>)"

definition multi_cell :: "env \<Rightarrow> real \<Rightarrow> real \<Rightarrow> string \<Rightarrow> pdf \<Rightarrow> pdf" where
  "multi_cell e cw h txt d =
     (let cw1 = (if cw = 0 then pdf_w e - r_margin e - get_x d else cw);
          d1 = cell e cw1 h txt 2 d;
          d2 = (next_line e h ^^ line_breaks e (font d) cw1 txt) d1
      in d2\<lparr>get_x := l_margin e\<rparr>)"

definition image :: "env \<Rightarrow> string \<Rightarrow> string \<Rightarrow> real \<Rightarrow> pdf \<Rightarrow> exn + pdf" where
  "image e file data iw d =
     (case image_height e data iw of
        Inl err \<Rightarrow> Inl err
      | Inr h \<Rightarrow>
          (let d1 = page_break e h d
           in Inr (d1\<lparr>drawn := drawn d1 @ [Picture (page_no d1) file], get_y := get_y d1 + h\<rparr>)))"

section \<open>Chapter Rendering\<close>

record TocEntry =
  toc_title :: string
  toc_page :: nat

text \<open>
  The image step (lines 118 to 132).  It returns the exception when one is raised: by the
  missing \<open>src\<close> attribute, by the download, by an error status, or by the writer when it
  cannot embed the file.
\<close>

definition add_chapter_image :: "env \<Rightarrow> nat \<Rightarrow> Chapter \<Rightarrow> html \<Rightarrow> pdf \<Rightarrow> exn + pdf" where
  "add_chapter_image e i ch chapter_soup d =
     (case find_class chapter_soup ''div'' ''work-reader-image-panel'' of
        None \<Rightarrow> Inr d
      | Some image_panel \<Rightarrow>
     (case find image_panel ''img'' of
        None \<Rightarrow> Inr d
      | Some img_tag \<Rightarrow>
     (case get_attr img_tag ''src'' of
        None \<Rightarrow> Inl (KeyError ''src'')
      | Some src \<Rightarrow>
     (case requests_get e (urljoin e (url ch) src) of
        Inl err \<Rightarrow> Inl err
      | Inr img_response \<Rightarrow>
     (case raise_for_status img_response of
        Inl err \<Rightarrow> Inl err
      | Inr u \<Rightarrow>
     (case image e (''temp_image_for_pdf_'' @ str_nat i @ ''.jpg'') (content img_response)
             (pdf_w e - l_margin e - r_margin e) d of
        Inl err \<Rightarrow> Inl err
      | Inr d1 \<Rightarrow> Inr (ln e 5 d1)))))))"

text \<open>The text step (lines 135 to 156).\<close>

definition add_chapter_text :: "env \<Rightarrow> html \<Rightarrow> pdf \<Rightarrow> pdf" where
  "add_chapter_text e chapter_soup d =
     (case find_class chapter_soup ''div'' ''work-reader-body-panel'' of
        Some content_div \<Rightarrow>
          (let d1 = set_font (''ArmenianFont'', [], 12) d;
               body = replace_br content_div;
               paragraphs = find_all body ''p''
           in if paragraphs \<noteq> []
              then fold (\<lambda>p acc. ln e 3 (multi_cell e 0 7 (get_text_sep_strip p) acc)) paragraphs d1
              else multi_cell e 0 7 (get_text_sep_strip body) d1)
      | None \<Rightarrow>
          multi_cell e 0 10 ''Could not find text content for this chapter.''
            (set_font (''ArmenianFont'', ''I'', 12) d))"

text \<open>The body of the \<open>try\<close> block (lines 112 to 156).\<close>

definition chapter_content :: "env \<Rightarrow> nat \<Rightarrow> Chapter \<Rightarrow> pdf \<Rightarrow> exn + pdf" where
  "chapter_content e i ch d =
     (case requests_get e (url ch) of
        Inl err \<Rightarrow> Inl err
      | Inr chapter_response \<Rightarrow>
     (case raise_for_status chapter_response of
        Inl err \<Rightarrow> Inl err
      | Inr u \<Rightarrow>
     (let chapter_soup = BeautifulSoup e (content chapter_response) in
     (case add_chapter_image e i ch chapter_soup d of
        Inl err \<Rightarrow> Inl err
      | Inr d1 \<Rightarrow> Inr (add_chapter_text e chapter_soup d1)))))"

text \<open>
  One turn of the chapter loop (lines 102 to 165): new page, entry for the table of
  contents, heading, then the \<open>try\<close> block with its two handlers.  Every statement of the
  block that can raise does so before the block has drawn anything, so a handler writes
  its message to the document as the heading left it.
\<close>

definition chapter_heading :: "env \<Rightarrow> Chapter \<Rightarrow> pdf \<Rightarrow> pdf" where
  "chapter_heading e ch d =
     ln e 5 (multi_cell e 0 10 (title ch) (set_font (''ArmenianFont'', ''B'', 16) d))"

definition render_chapter ::
    "env \<Rightarrow> nat \<Rightarrow> Chapter \<Rightarrow> pdf \<times> TocEntry list \<Rightarrow> pdf \<times> TocEntry list" where
  "render_chapter e i ch st =
     (let d1 = add_page e (fst st);
          toc_entries = snd st @ [\<lparr>toc_title = title ch, toc_page = page_no d1\<rparr>];
          d2 = chapter_heading e ch d1
      in (case chapter_content e i ch d2 of
            Inr d3 \<Rightarrow> (d3, toc_entries)
          | Inl err \<Rightarrow>
              if is_RequestException err
              then (multi_cell e 0 10 (''Error fetching content: '' @ exn_str err)
                      (set_font (''ArmenianFont'', ''I'', 12) d2), toc_entries)
              else (multi_cell e 0 10 (''An error occurred: '' @ exn_str err)
                      (set_font (''ArmenianFont'', ''I'', 12) d2), toc_entries)))"

fun render_chapters ::
    "env \<Rightarrow> nat \<Rightarrow> Chapter list \<Rightarrow> pdf \<times> TocEntry list \<Rightarrow> pdf \<times> TocEntry list" where
  "render_chapters e i [] st = st"
| "render_chapters e i (ch # chapters) st = render_chapters e (Suc i) chapters (render_chapter e i ch st)"

section \<open>Table of Contents Assembly\<close>

definition page_num_col_width :: real where
  "page_num_col_width = 20"

definition title_col_width :: "env \<Rightarrow> real" where
  "title_col_width e = (pdf_w e - l_margin e - r_margin e) - page_num_col_width"

definition line_height :: real where
  "line_height = 7"

text \<open>
  The height-estimation loop (lines 186 to 194), over the words still to come, with the
  line count and the line buffer as they stand.
\<close>

fun count_lines :: "(string \<Rightarrow> real) \<Rightarrow> real \<Rightarrow> string list \<Rightarrow> nat \<Rightarrow> string \<Rightarrow> nat" where
  "count_lines width col [] lines current_line_text = lines"
| "count_lines width col (word # words) lines current_line_text =
     (if width (current_line_text @ word @ '' '') > col
      then count_lines width col words (lines + 1) (word @ '' '')
      else count_lines width col words lines (current_line_text @ word @ '' ''))"

definition title_lines :: "env \<Rightarrow> font \<Rightarrow> string \<Rightarrow> nat" where
  "title_lines e f ttl = count_lines (get_string_width e f) (title_col_width e) (split_sp ttl) 1 []"

definition title_height :: "env \<Rightarrow> font \<Rightarrow> string \<Rightarrow> real" where
  "title_height e f ttl = real (title_lines e f ttl) * line_height"

text \<open>Drawing one entry (lines 204 to 217), given its estimated height.\<close>

definition toc_draw :: "env \<Rightarrow> string \<Rightarrow> string \<Rightarrow> real \<Rightarrow> pdf \<Rightarrow> pdf" where
  "toc_draw e ttl page_num th d =
     (let start_y = get_y d;
          d1 = multi_cell e (title_col_width e) line_height ttl d;
          d2 = set_xy e (l_margin e + title_col_width e) start_y d1;
          d3 = cell e page_num_col_width th page_num 1 d2
      in ln e 4 d3)"

text \<open>The check before drawing (lines 200 and 201).\<close>

definition toc_guard :: "env \<Rightarrow> real \<Rightarrow> pdf \<Rightarrow> pdf" where
  "toc_guard e th d = (if get_y d + th \<ge> page_break_trigger e then add_page e d else d)"

definition toc_entry :: "env \<Rightarrow> TocEntry \<Rightarrow> pdf \<Rightarrow> pdf" where
  "toc_entry e entry d =
     (let th = title_height e (font d) (toc_title entry)
      in toc_draw e (toc_title entry) (str_nat (toc_page entry)) th (toc_guard e th d))"

section \<open>create\_book\_pdf\<close>

text \<open>
  A run either stops at the font check, or goes through to the save, which succeeds or
  fails; in both cases the document and the entries made are what they are.
\<close>

datatype outcome =
    Fonts_missing
  | Finished bool string pdf "TocEntry list"

definition fonts_found :: "env \<Rightarrow> bool" where
  "fonts_found e = (font_regular_exists e \<and> font_bold_exists e \<and> font_italic_exists e)"

definition title_page :: "env \<Rightarrow> string \<Rightarrow> pdf" where
  "title_page e book_title =
     ln e 20 (multi_cell e 0 15 book_title (set_font (''ArmenianFont'', ''B'', 24) (add_page e PDF)))"

definition toc_heading :: "env \<Rightarrow> pdf \<Rightarrow> pdf" where
  "toc_heading e d =
     set_font (''ArmenianFont'', [], 12)
       (ln e 10 (cell e 0 15 ''Table of Contents'' 1
          (set_font (''ArmenianFont'', ''B'', 20) (add_page e d))))"

definition create_book_pdf :: "env \<Rightarrow> string \<Rightarrow> Chapter list \<Rightarrow> outcome" where
  "create_book_pdf e book_title chapters =
     (if \<not> fonts_found e then Fonts_missing
      else
        (let pdf_filename = sanitize_filename book_title @ ''.pdf'';
             st = render_chapters e 0 chapters (title_page e book_title, []);
             d = fold (toc_entry e) (snd st) (toc_heading e (fst st))
         in Finished (\<not> output_fails e) pdf_filename (footer d) (snd st)))"

text \<open>The entries a run has made; none when it stopped at the font check.\<close>

fun toc_entries_of :: "outcome \<Rightarrow> TocEntry list" where
  "toc_entries_of Fonts_missing = []"
| "toc_entries_of (Finished saved file d toc) = toc"

text \<open>The script's entry point (lines 229 to 233).\<close>

definition main :: "env \<Rightarrow> exn + outcome" where
  "main e =
     (case get_book_details e digilib_url of
        Inl err \<Rightarrow> Inl err
      | Inr (book_title, chapters) \<Rightarrow> Inr (create_book_pdf e book_title chapters))"

section \<open>A contract for the text measure\<close>

text \<open>
  The width the writer measures never shrinks when characters are added around a text:
  it is a sum of glyph widths, none negative.  The script relies on nothing else.
\<close>

definition width_monotone :: "(string \<Rightarrow> real) \<Rightarrow> bool" where
  "width_monotone width = (\<forall>s t u. width t \<le> width (s @ t @ u))"

text \<open>The font selected for the table of contents (line 173).\<close>

definition toc_font :: font where
  "toc_font = (''ArmenianFont'', [], 12)"

section \<open>A small site, for concrete runs\<close>

text \<open>
  A book of two chapters.  The main page and the first chapter can be fetched, the second
  chapter cannot.  Every glyph is 50 units wide, the page is A4 in millimetres, and the writer
  breaks a text after every third glyph.  The variants change one thing each.
\<close>

definition main_page :: html where
  "main_page =
     Tag ''[document]'' [] []
       [Tag ''div'' [''product-details-panel''] []
          [Tag ''div'' [] [] [Tag ''h1'' [] [] [NavigableString '' The Book '']]],
        Tag ''div'' [''tree'', ''well''] []
          [Tag ''a'' [] [(''href'', ''one'')] [NavigableString ''One''],
           Tag ''a'' [] [(''href'', ''two'')] [NavigableString ''Two'']]]"

definition chapter_page :: html where
  "chapter_page =
     Tag ''[document]'' [] []
       [Tag ''div'' [''work-reader-image-panel''] [] [Tag ''img'' [] [(''src'', ''pic.jpg'')] []],
        Tag ''div'' [''work-reader-body-panel''] [] [Tag ''p'' [] [] [NavigableString ''Hello'']]]"

definition site :: env where
  "site =
     \<lparr>requests_get = (\<lambda>u.
          if u = digilib_url then Inr \<lparr>status_code = 200, content = ''main''\<rparr>
          else if u = ''http://book/one'' then Inr \<lparr>status_code = 200, content = ''chapter''\<rparr>
          else if u = ''http://book/pic.jpg'' then Inr \<lparr>status_code = 200, content = ''jpeg''\<rparr>
          else Inl (RequestException ''connection refused'')),
      BeautifulSoup = (\<lambda>c. if c = ''main'' then main_page else chapter_page),
      urljoin = (\<lambda>base rel. ''http://book/'' @ rel),
      font_regular_exists = True,
      font_bold_exists = True,
      font_italic_exists = True,
      pdf_w = 210,
      pdf_h = 297,
      l_margin = 10,
      r_margin = 10,
      t_margin = 10,
      page_break_trigger = 277,
      get_string_width = (\<lambda>f s. 50 * real (length s)),
      line_breaks = (\<lambda>f cw s. (length s - 1) div 3),
      image_height = (\<lambda>data iw. Inr 100),
      output_fails = False\<rparr>"

definition ch_one :: Chapter where
  "ch_one = \<lparr>title = ''One'', url = ''http://book/one''\<rparr>"

definition ch_two :: Chapter where
  "ch_two = \<lparr>title = ''Two'', url = ''http://book/two''\<rparr>"


definition site_no_fonts :: env where
  "site_no_fonts = site\<lparr>font_bold_exists := False\<rparr>"

definition page_panel_without_div :: html where
  "page_panel_without_div =
     Tag ''[document]'' [] []
       [Tag ''div'' [''product-details-panel''] [] [NavigableString ''no heading''],
        Tag ''div'' [''tree'', ''well''] []
          [Tag ''a'' [] [(''href'', ''one'')] [NavigableString ''One'']]]"

definition page_panel_without_div_or_toc :: html where
  "page_panel_without_div_or_toc =
     Tag ''[document]'' [] []
       [Tag ''div'' [''product-details-panel''] [] [NavigableString ''no heading'']]"

definition toc_cursor :: "real \<Rightarrow> pdf" where
  "toc_cursor py = \<lparr>page_no = 4, get_x = 10, get_y = py, font = toc_font, drawn = []\<rparr>"

definition site_panel_without_div :: env where
  "site_panel_without_div = site\<lparr>BeautifulSoup := (\<lambda>c. page_panel_without_div)\<rparr>"

definition site_panel_without_div_or_toc :: env where
  "site_panel_without_div_or_toc = site\<lparr>BeautifulSoup := (\<lambda>c. page_panel_without_div_or_toc)\<rparr>"

section \<open>Properties of the text helpers\<close>

lemma set_dropWhile_subset: "set (dropWhile P xs) \<subseteq> set xs"
  by (induction xs) auto

lemma set_strip_subset: "set (strip s) \<subseteq> set s"
proof -
  have "set (strip s) \<subseteq> set (lstrip s)"
    unfolding strip_def rstrip_def using set_dropWhile_subset [of isspace "rev (lstrip s)"] by simp
  also have "\<dots> \<subseteq> set s"
    unfolding lstrip_def by (rule set_dropWhile_subset)
  finally show ?thesis .
qed

text \<open>
  C9.  For every input string, \<open>sanitize_filename\<close> returns a string that contains none of
  the characters \<^verbatim>\<open>\ / * ? : " < > |\<close>.
\<close>

theorem sanitize_filename_no_forbidden:
  "set (sanitize_filename name) \<inter> set forbidden = {}"
proof -
  have "set (sanitize_filename name) \<subseteq> set (filter (\<lambda>c. c \<notin> set forbidden) name)"
    unfolding sanitize_filename_def by (rule set_strip_subset)
  then show ?thesis by auto
qed

theorem sanitize_filename_no_forbidden_witness:
  "sanitize_filename ''A/B:C?'' = ''ABC'' \<and> set (sanitize_filename ''A/B:C?'') \<inter> set forbidden = {}"
  using sanitize_filename_no_forbidden [of "''A/B:C?''"]
  by (simp add: sanitize_filename_def forbidden_def strip_def lstrip_def rstrip_def isspace_def)

lemmas site_simps = site_def digilib_url_def raise_for_status_def main_page_def chapter_page_def
  title_col_width_def page_num_col_width_def line_height_def toc_font_def

section \<open>The page number never goes back\<close>

lemma page_no_add_page: "page_no (add_page e d) = Suc (page_no d)"
  by (simp add: add_page_def footer_def Let_def)

lemma page_no_page_break: "page_no d \<le> page_no (page_break e h d)"
  by (simp add: page_break_def page_no_add_page)

lemma page_no_cell: "page_no d \<le> page_no (cell e cw h txt nl d)"
  using page_no_page_break [of d e h] by (simp add: cell_def Let_def)

lemma page_no_next_line: "page_no d \<le> page_no (next_line e h d)"
  using page_no_page_break [of d e h] by (simp add: next_line_def Let_def)

lemma page_no_next_lines: "page_no d \<le> page_no ((next_line e h ^^ n) d)"
proof (induction n)
  case 0
  show ?case by simp
next
  case (Suc n)
  have "page_no ((next_line e h ^^ n) d) \<le> page_no (next_line e h ((next_line e h ^^ n) d))"
    by (rule page_no_next_line)
  with Suc show ?case by simp
qed

lemma page_no_multi_cell: "page_no d \<le> page_no (multi_cell e cw h txt d)"
proof -
  let ?cw = "if cw = 0 then pdf_w e - r_margin e - get_x d else cw"
  have "page_no d \<le> page_no (cell e ?cw h txt 2 d)"
    by (rule page_no_cell)
  also have "\<dots> \<le> page_no ((next_line e h ^^ line_breaks e (font d) ?cw txt) (cell e ?cw h txt 2 d))"
    by (rule page_no_next_lines)
  finally show ?thesis by (simp add: multi_cell_def Let_def)
qed

lemma page_no_ln [simp]: "page_no (ln e h d) = page_no d"
  by (simp add: ln_def)

lemma page_no_set_font [simp]: "page_no (set_font f d) = page_no d"
  by (simp add: set_font_def)

lemma page_no_set_xy [simp]: "page_no (set_xy e px py d) = page_no d"
  by (simp add: set_xy_def)

lemma page_no_image: "image e file data iw d = Inr d' \<Longrightarrow> page_no d \<le> page_no d'"
  using page_no_page_break [of d e]
  by (auto simp: image_def Let_def split: sum.splits)

lemma page_no_add_chapter_image:
  "add_chapter_image e i ch soup d = Inr d' \<Longrightarrow> page_no d \<le> page_no d'"
  by (auto simp: add_chapter_image_def split: option.splits sum.splits dest: page_no_image)

lemma page_no_paragraphs:
  "page_no d \<le> page_no (fold (\<lambda>p acc. ln e 3 (multi_cell e 0 7 (g p) acc)) ps d)"
proof (induction ps arbitrary: d)
  case Nil
  show ?case by simp
next
  case (Cons p ps)
  have "page_no d \<le> page_no (ln e 3 (multi_cell e 0 7 (g p) d))"
    by (simp add: page_no_multi_cell)
  also have "\<dots> \<le> page_no (fold (\<lambda>p acc. ln e 3 (multi_cell e 0 7 (g p) acc)) ps (ln e 3 (multi_cell e 0 7 (g p) d)))"
    by (rule Cons.IH)
  finally show ?case by simp
qed

lemma page_no_add_chapter_text: "page_no d \<le> page_no (add_chapter_text e soup d)"
proof (cases "find_class soup ''div'' ''work-reader-body-panel''")
  case None
  have "page_no (set_font (''ArmenianFont'', ''I'', 12) d) \<le>
        page_no (multi_cell e 0 10 ''Could not find text content for this chapter.''
            (set_font (''ArmenianFont'', ''I'', 12) d))"
    by (rule page_no_multi_cell)
  with None show ?thesis by (simp add: add_chapter_text_def)
next
  case (Some content_div)
  let ?d1 = "set_font (''ArmenianFont'', [], 12) d"
  have a: "page_no ?d1 \<le> page_no (fold (\<lambda>p acc. ln e 3 (multi_cell e 0 7 (get_text_sep_strip p) acc)) ps ?d1)" for ps
    by (rule page_no_paragraphs)
  have b: "page_no ?d1 \<le> page_no (multi_cell e 0 7 t ?d1)" for t
    by (rule page_no_multi_cell)
  from Some a b show ?thesis
    by (simp add: add_chapter_text_def Let_def)
qed

lemma page_no_chapter_content:
  "chapter_content e i ch d = Inr d' \<Longrightarrow> page_no d \<le> page_no d'"
  using page_no_add_chapter_text
  by (auto simp: chapter_content_def Let_def split: sum.splits
      dest!: page_no_add_chapter_image intro: order_trans)

lemma page_no_chapter_heading: "page_no d \<le> page_no (chapter_heading e ch d)"
  using page_no_multi_cell [of "set_font (''ArmenianFont'', ''B'', 16) d" e 0 10 "title ch"]
  by (simp add: chapter_heading_def)

lemma snd_render_chapter:
  "snd (render_chapter e i ch st) =
     snd st @ [\<lparr>toc_title = title ch, toc_page = Suc (page_no (fst st))\<rparr>]"
  by (simp add: render_chapter_def Let_def page_no_add_page split: sum.splits)

lemma page_no_render_chapter:
  "Suc (page_no (fst st)) \<le> page_no (fst (render_chapter e i ch st))"
proof -
  let ?d1 = "add_page e (fst st)"
  let ?d2 = "chapter_heading e ch ?d1"
  let ?f = "set_font (''ArmenianFont'', ''I'', 12) ?d2"
  have h: "Suc (page_no (fst st)) \<le> page_no ?d2"
    using page_no_chapter_heading [of ?d1 e ch] by (simp add: page_no_add_page)
  have m: "page_no ?d2 \<le> page_no (multi_cell e 0 10 t ?f)" for t
    using page_no_multi_cell [of ?f e 0 10 t] by simp
  show ?thesis
  proof (cases "chapter_content e i ch ?d2")
    case (Inl err)
    with h m show ?thesis
      by (auto simp: render_chapter_def Let_def intro: order_trans)
  next
    case (Inr d3)
    with h page_no_chapter_content [OF Inr] show ?thesis
      by (simp add: render_chapter_def Let_def)
  qed
qed

text \<open>A text that fits above the trigger is drawn without a page break.\<close>

lemma page_break_id: "get_y d + h \<le> page_break_trigger e \<Longrightarrow> page_break e h d = d"
  by (simp add: page_break_def)

lemma next_lines_same_page:
  "0 \<le> h \<Longrightarrow> get_y d + real n * h \<le> page_break_trigger e \<Longrightarrow>
   (next_line e h ^^ n) d = d\<lparr>get_y := get_y d + real n * h\<rparr>"
proof (induction n)
  case 0
  show ?case by simp
next
  case (Suc n)
  have le: "get_y d + real n * h \<le> get_y d + real (Suc n) * h"
    using Suc.prems(1) by (simp add: algebra_simps)
  with Suc.prems have "get_y d + real n * h \<le> page_break_trigger e" by linarith
  with Suc have ih: "(next_line e h ^^ n) d = d\<lparr>get_y := get_y d + real n * h\<rparr>" by simp
  have "get_y (d\<lparr>get_y := get_y d + real n * h\<rparr>) + h \<le> page_break_trigger e"
    using Suc.prems(2) by (simp add: algebra_simps)
  then have pb: "page_break e h (d\<lparr>get_y := get_y d + real n * h\<rparr>) = d\<lparr>get_y := get_y d + real n * h\<rparr>"
    by (rule page_break_id)
  have "(next_line e h ^^ Suc n) d = next_line e h ((next_line e h ^^ n) d)" by simp
  also have "\<dots> = next_line e h (d\<lparr>get_y := get_y d + real n * h\<rparr>)" by (simp only: ih)
  also have "\<dots> = d\<lparr>get_y := get_y d + real (Suc n) * h\<rparr>"
    unfolding next_line_def Let_def pb by (simp add: algebra_simps)
  finally show ?case .
qed

lemma multi_cell_same_page:
  assumes "0 \<le> h"
    and "get_y d + real (Suc (line_breaks e (font d) (if cw = 0 then pdf_w e - r_margin e - get_x d else cw) txt)) * h
           \<le> page_break_trigger e"
  shows "multi_cell e cw h txt d =
     d\<lparr>drawn := drawn d @ [Text (page_no d) txt],
       get_y := get_y d + real (Suc (line_breaks e (font d) (if cw = 0 then pdf_w e - r_margin e - get_x d else cw) txt)) * h,
       get_x := l_margin e\<rparr>"
proof -
  let ?cw = "if cw = 0 then pdf_w e - r_margin e - get_x d else cw"
  let ?n = "line_breaks e (font d) ?cw txt"
  have "get_y d + h \<le> get_y d + real (Suc ?n) * h"
    using assms(1) by (simp add: algebra_simps)
  with assms(2) have "get_y d + h \<le> page_break_trigger e" by linarith
  then have pb: "page_break e h d = d" by (rule page_break_id)
  let ?d1 = "cell e ?cw h txt 2 d"
  have d1: "?d1 = d\<lparr>drawn := drawn d @ [Text (page_no d) txt], get_y := get_y d + h\<rparr>"
    by (simp add: cell_def Let_def pb)
  have "get_y ?d1 + real ?n * h \<le> page_break_trigger e"
    using assms(2) by (simp add: d1 algebra_simps)
  from next_lines_same_page [OF assms(1) this]
  have "(next_line e h ^^ ?n) ?d1 = ?d1\<lparr>get_y := get_y ?d1 + real ?n * h\<rparr>" .
  then show ?thesis
    unfolding multi_cell_def Let_def by (simp add: d1 algebra_simps)
qed

lemma site_geometry:
  "pdf_w site = 210" "l_margin site = 10" "r_margin site = 10"
  "t_margin site = 10" "page_break_trigger site = 277"
  "line_breaks site = (\<lambda>f cw s. (length s - 1) div 3)"
  by (simp_all add: site_def)

lemma page_no_title_page_site: "page_no (title_page site ''Book'') = 1"
  by (simp add: title_page_def PDF_def add_page_def set_font_def ln_def Let_def
      multi_cell_same_page site_geometry)

section \<open>Entries for the table of contents\<close>

lemma render_chapters_titles:
  "map toc_title (snd (render_chapters e i chapters st)) = map toc_title (snd st) @ map title chapters"
  by (induction chapters arbitrary: i st) (simp_all add: snd_render_chapter)

lemma render_chapters_sorted:
  "sorted (map toc_page (snd st)) \<Longrightarrow> \<forall>t \<in> set (snd st). toc_page t \<le> page_no (fst st) \<Longrightarrow>
   sorted (map toc_page (snd (render_chapters e i chapters st)))"
proof (induction chapters arbitrary: i st)
  case Nil
  then show ?case by simp
next
  case (Cons ch chapters)
  let ?st = "render_chapter e i ch st"
  have le: "Suc (page_no (fst st)) \<le> page_no (fst ?st)"
    by (rule page_no_render_chapter)
  have s: "sorted (map toc_page (snd ?st))"
    using Cons.prems by (auto simp: snd_render_chapter sorted_append)
  have b: "\<forall>t \<in> set (snd ?st). toc_page t \<le> page_no (fst ?st)"
    using Cons.prems(2) le by (auto simp: snd_render_chapter)
  from Cons.IH [OF s b] show ?case by simp
qed

lemma toc_entries_of_run:
  "fonts_found e \<Longrightarrow>
   toc_entries_of (create_book_pdf e book_title chapters) =
     snd (render_chapters e 0 chapters (title_page e book_title, []))"
  by (simp add: create_book_pdf_def Let_def)

lemma render_chapters_append:
  "render_chapters e i (xs @ ys) st = render_chapters e (i + length xs) ys (render_chapters e i xs st)"
  by (induction xs arbitrary: i st) simp_all

lemma length_render_chapters:
  "length (snd (render_chapters e i chapters st)) = length (snd st) + length chapters"
  by (induction chapters arbitrary: i st) (simp_all add: snd_render_chapter)

lemma nth_render_chapters:
  "k < length (snd st) \<Longrightarrow> snd (render_chapters e i chapters st) ! k = snd st ! k"
proof (induction chapters arbitrary: i st)
  case Nil
  show ?case by simp
next
  case (Cons ch chapters)
  have "k < length (snd (render_chapter e i ch st))"
    using Cons.prems by (simp add: snd_render_chapter)
  from Cons.IH [OF this] Cons.prems show ?case
    by (simp add: snd_render_chapter nth_append)
qed

lemma render_chapters_split:
  "snd (render_chapters e 0 (before @ ch # after) st) ! (length (snd st) + length before) =
     \<lparr>toc_title = title ch,
      toc_page = page_no (add_page e (fst (render_chapters e 0 before st)))\<rparr>"
proof -
  let ?s = "render_chapters e 0 before st"
  let ?r = "render_chapter e (length before) ch ?s"
  have l: "length (snd ?s) = length (snd st) + length before"
    by (rule length_render_chapters)
  have "render_chapters e 0 (before @ ch # after) st = render_chapters e (Suc (length before)) after ?r"
    by (simp add: render_chapters_append)
  moreover have "length (snd st) + length before < length (snd ?r)"
    by (simp add: snd_render_chapter l)
  ultimately have "snd (render_chapters e 0 (before @ ch # after) st) ! (length (snd st) + length before)
      = snd ?r ! (length (snd st) + length before)"
    by (simp only: nth_render_chapters)
  also have "\<dots> = \<lparr>toc_title = title ch, toc_page = Suc (page_no (fst ?s))\<rparr>"
    using l by (simp add: snd_render_chapter nth_append)
  finally show ?thesis by (simp add: page_no_add_page)
qed

text \<open>
  C1.  When the three font files are found, a run over a chapter list of length N makes
  exactly N entries for the table of contents, in the order of the chapters, and the entry
  of each chapter carries the chapter's title and the page number the document has right
  after the page for that chapter is added, before its heading and content.  When a font
  file is missing the run stops at the font check and makes no entry.
\<close>

theorem toc_entries_match_chapters:
  "(fonts_found e \<longrightarrow>
      length (toc_entries_of (create_book_pdf e book_title chapters)) = length chapters \<and>
      map toc_title (toc_entries_of (create_book_pdf e book_title chapters)) = map title chapters \<and>
      (\<forall>k < length chapters.
         toc_entries_of (create_book_pdf e book_title chapters) ! k =
           \<lparr>toc_title = title (chapters ! k),
            toc_page = page_no (add_page e
              (fst (render_chapters e 0 (take k chapters) (title_page e book_title, []))))\<rparr>)) \<and>
   (\<not> fonts_found e \<longrightarrow>
      create_book_pdf e book_title chapters = Fonts_missing \<and>
      toc_entries_of (create_book_pdf e book_title chapters) = [])"
proof (intro conjI impI allI)
  assume f: "fonts_found e"
  show m: "map toc_title (toc_entries_of (create_book_pdf e book_title chapters)) = map title chapters"
    using f by (simp add: toc_entries_of_run render_chapters_titles)
  show "length (toc_entries_of (create_book_pdf e book_title chapters)) = length chapters"
    using f by (simp add: toc_entries_of_run length_render_chapters)
  fix k assume k: "k < length chapters"
  let ?st = "(title_page e book_title, []::TocEntry list)"
  have c: "chapters = take k chapters @ chapters ! k # drop (Suc k) chapters"
    using k by (rule id_take_nth_drop)
  have "snd (render_chapters e 0 (take k chapters @ chapters ! k # drop (Suc k) chapters) ?st)
          ! (length (snd ?st) + length (take k chapters)) =
        \<lparr>toc_title = title (chapters ! k),
         toc_page = page_no (add_page e (fst (render_chapters e 0 (take k chapters) ?st)))\<rparr>"
    by (rule render_chapters_split)
  moreover have "length (snd ?st) + length (take k chapters) = k" using k by simp
  ultimately have "snd (render_chapters e 0 chapters ?st) ! k =
        \<lparr>toc_title = title (chapters ! k),
         toc_page = page_no (add_page e (fst (render_chapters e 0 (take k chapters) ?st)))\<rparr>"
    using c by (simp only:) 
  then show "toc_entries_of (create_book_pdf e book_title chapters) ! k =
           \<lparr>toc_title = title (chapters ! k),
            toc_page = page_no (add_page e
              (fst (render_chapters e 0 (take k chapters) (title_page e book_title, []))))\<rparr>"
    using f by (simp add: toc_entries_of_run)
next
  assume "\<not> fonts_found e"
  then show "create_book_pdf e book_title chapters = Fonts_missing"
    by (simp add: create_book_pdf_def)
  then show "toc_entries_of (create_book_pdf e book_title chapters) = []"
    by simp
qed

text \<open>A run over two chapters on the small site, and one without the bold font.\<close>

theorem toc_entries_match_chapters_witness:
  "fonts_found site \<and>
   length (toc_entries_of (create_book_pdf site ''Book'' [ch_one, ch_two])) = 2 \<and>
   map toc_title (toc_entries_of (create_book_pdf site ''Book'' [ch_one, ch_two])) = [''One'', ''Two''] \<and>
   toc_entries_of (create_book_pdf site ''Book'' [ch_one, ch_two]) ! 0 = \<lparr>toc_title = ''One'', toc_page = 2\<rparr> \<and>
   \<not> fonts_found site_no_fonts \<and>
   create_book_pdf site_no_fonts ''Book'' [ch_one] = Fonts_missing \<and>
   toc_entries_of (create_book_pdf site_no_fonts ''Book'' [ch_one]) = []"
proof -
  have f: "fonts_found site" by (simp add: fonts_found_def site_def)
  have n: "\<not> fonts_found site_no_fonts" by (simp add: fonts_found_def site_no_fonts_def site_def)
  note t = toc_entries_match_chapters [of site "''Book''" "[ch_one, ch_two]"]
  from t f have l: "length (toc_entries_of (create_book_pdf site ''Book'' [ch_one, ch_two])) = length [ch_one, ch_two]"
    and m: "map toc_title (toc_entries_of (create_book_pdf site ''Book'' [ch_one, ch_two])) = map title [ch_one, ch_two]"
    and k: "\<forall>k < length [ch_one, ch_two].
         toc_entries_of (create_book_pdf site ''Book'' [ch_one, ch_two]) ! k =
           \<lparr>toc_title = title ([ch_one, ch_two] ! k),
            toc_page = page_no (add_page site
              (fst (render_chapters site 0 (take k [ch_one, ch_two]) (title_page site ''Book'', []))))\<rparr>"
    by blast+
  from k have "toc_entries_of (create_book_pdf site ''Book'' [ch_one, ch_two]) ! 0 =
           \<lparr>toc_title = title ([ch_one, ch_two] ! 0),
            toc_page = page_no (add_page site
              (fst (render_chapters site 0 (take 0 [ch_one, ch_two]) (title_page site ''Book'', []))))\<rparr>"
    by simp
  then have z: "toc_entries_of (create_book_pdf site ''Book'' [ch_one, ch_two]) ! 0 = \<lparr>toc_title = ''One'', toc_page = 2\<rparr>"
    by (simp add: page_no_add_page page_no_title_page_site ch_one_def)
  from toc_entries_match_chapters [of site_no_fonts "''Book''" "[ch_one]"] n
  have a: "create_book_pdf site_no_fonts ''Book'' [ch_one] = Fonts_missing"
    and b: "toc_entries_of (create_book_pdf site_no_fonts ''Book'' [ch_one]) = []"
    by blast+
  from f l m z n a b show ?thesis by (simp add: ch_one_def ch_two_def)
qed

text \<open>
  Without the bold font the run stops at the font check, before the chapter loop: one chapter
  goes in and no entry comes out.
\<close>

theorem toc_entries_counterexample:
  "\<not> fonts_found site_no_fonts \<and>
   length (toc_entries_of (create_book_pdf site_no_fonts ''Book'' [ch_one])) \<noteq> length [ch_one]"
  by (simp add: create_book_pdf_def fonts_found_def site_no_fonts_def site_def)

text \<open>
  C4.  Across the entries made by one run the page is non-decreasing: for indices
  \<open>i < j\<close>, the page of entry \<open>i\<close> is at most the page of entry \<open>j\<close>.
\<close>

theorem toc_pages_non_decreasing:
  "i < j \<Longrightarrow> j < length (toc_entries_of (create_book_pdf e book_title chapters)) \<Longrightarrow>
   toc_page (toc_entries_of (create_book_pdf e book_title chapters) ! i)
     \<le> toc_page (toc_entries_of (create_book_pdf e book_title chapters) ! j)"
proof -
  assume ij: "i < j" and j: "j < length (toc_entries_of (create_book_pdf e book_title chapters))"
  let ?toc = "toc_entries_of (create_book_pdf e book_title chapters)"
  have "sorted (map toc_page ?toc)"
  proof (cases "fonts_found e")
    case True
    then show ?thesis
      using render_chapters_sorted [of "(title_page e book_title, [])" e 0 chapters]
      by (simp add: toc_entries_of_run)
  next
    case False
    then show ?thesis by (simp add: create_book_pdf_def)
  qed
  then have "map toc_page ?toc ! i \<le> map toc_page ?toc ! j"
    using ij j by (simp add: sorted_iff_nth_mono del: nth_map)
  then show ?thesis using ij j by simp
qed

theorem toc_pages_non_decreasing_witness:
  "(0::nat) < 1 \<and> 1 < length (toc_entries_of (create_book_pdf site ''Book'' [ch_one, ch_two])) \<and>
   toc_page (toc_entries_of (create_book_pdf site ''Book'' [ch_one, ch_two]) ! 0)
     \<le> toc_page (toc_entries_of (create_book_pdf site ''Book'' [ch_one, ch_two]) ! 1)"
proof -
  have f: "fonts_found site" by (simp add: fonts_found_def site_def)
  have "length (map toc_title (toc_entries_of (create_book_pdf site ''Book'' [ch_one, ch_two]))) = 2"
    by (simp only: toc_entries_of_run [OF f] render_chapters_titles) simp
  then have l: "1 < length (toc_entries_of (create_book_pdf site ''Book'' [ch_one, ch_two]))"
    by simp
  from toc_pages_non_decreasing [of 0 1 site "''Book''" "[ch_one, ch_two]"] l
  show ?thesis by simp
qed

section \<open>Height estimation\<close>

lemma split_sp_not_Nil: "split_sp s \<noteq> []"
  by (induction s) (auto split: list.splits)

lemma concat_split_sp: "concat (map (\<lambda>w. w @ '' '') (split_sp s)) = s @ '' ''"
  by (induction s) (auto split: list.splits simp: split_sp_not_Nil)

lemma count_lines_ge: "n \<le> count_lines width col words n cur"
proof (induction words arbitrary: n cur)
  case Nil
  show ?case by simp
next
  case (Cons word words)
  have "n \<le> n + 1" by simp
  also have "n + 1 \<le> count_lines width col words (n + 1) (word @ '' '')"
    by (rule Cons.IH)
  finally have a: "n \<le> count_lines width col words (n + 1) (word @ '' '')" .
  from a Cons.IH [of n "cur @ word @ '' ''"] show ?case by simp
qed

lemma count_lines_all_fit:
  assumes "width_monotone width"
  shows "width (cur @ concat (map (\<lambda>w. w @ '' '') words)) \<le> col \<Longrightarrow>
         count_lines width col words n cur = n"
proof (induction words arbitrary: cur)
  case Nil
  show ?case by simp
next
  case (Cons word words)
  let ?rest = "concat (map (\<lambda>w. w @ '' '') words)"
  have "width (cur @ word @ '' '') \<le> width ([] @ (cur @ word @ '' '') @ ?rest)"
    using assms unfolding width_monotone_def by blast
  also have "\<dots> \<le> col" using Cons.prems by simp
  finally have fit: "\<not> width (cur @ word @ '' '') > col" by simp
  have "width ((cur @ word @ '' '') @ ?rest) \<le> col" using Cons.prems by simp
  from Cons.IH [OF this] fit show ?case by simp
qed

lemma count_lines_all_wide:
  assumes "width_monotone width"
  shows "\<forall>w \<in> set words. col < width w \<Longrightarrow>
         count_lines width col words n cur = n + length words"
proof (induction words arbitrary: n cur)
  case Nil
  show ?case by simp
next
  case (Cons word words)
  have "col < width word" using Cons.prems by simp
  also have "width word \<le> width (cur @ word @ '' '')"
    using assms unfolding width_monotone_def by blast
  finally have wide: "width (cur @ word @ '' '') > col" .
  have "\<forall>w \<in> set words. col < width w" using Cons.prems by simp
  from Cons.IH [OF this, of "n + 1" "word @ '' ''"] wide show ?case by simp
qed

text \<open>
  What the loop computes, for a text measure that never shrinks when characters are added:
  1 line when the title with the space appended to its last word is no wider than the
  column, and one line more than the number of words when every word alone is wider.
\<close>

theorem title_lines_estimate:
  assumes "width_monotone (get_string_width e f)"
  shows "(get_string_width e f (ttl @ '' '') \<le> title_col_width e \<longrightarrow> title_lines e f ttl = 1) \<and>
         ((\<forall>word \<in> set (split_sp ttl). title_col_width e < get_string_width e f word) \<longrightarrow>
            title_lines e f ttl = length (split_sp ttl) + 1 \<and>
            title_height e f ttl = real (length (split_sp ttl) + 1) * line_height)"
proof (intro conjI impI)
  assume "get_string_width e f (ttl @ '' '') \<le> title_col_width e"
  then have "get_string_width e f ([] @ concat (map (\<lambda>w. w @ '' '') (split_sp ttl))) \<le> title_col_width e"
    by (simp add: concat_split_sp)
  from count_lines_all_fit [OF assms this] show "title_lines e f ttl = 1"
    by (simp add: title_lines_def)
next
  assume wide: "\<forall>word \<in> set (split_sp ttl). title_col_width e < get_string_width e f word"
  from count_lines_all_wide [OF assms wide, of 1 "[]"]
  show l: "title_lines e f ttl = length (split_sp ttl) + 1"
    by (simp add: title_lines_def)
  show "title_height e f ttl = real (length (split_sp ttl) + 1) * line_height"
    unfolding title_height_def l ..
qed

lemma site_width_monotone: "width_monotone (get_string_width site f)"
  by (simp add: width_monotone_def site_def)

theorem title_lines_estimate_witness:
  "width_monotone (get_string_width site toc_font) \<and>
   get_string_width site toc_font (''ab'' @ '' '') \<le> title_col_width site \<and>
   title_lines site toc_font ''ab'' = 1 \<and>
   split_sp ''abcd abcd abcd'' = [''abcd'', ''abcd'', ''abcd''] \<and>
   title_col_width site < get_string_width site toc_font ''abcd'' \<and>
   title_lines site toc_font ''abcd abcd abcd'' = 4"
proof -
  have m: "width_monotone (get_string_width site toc_font)"
    by (rule site_width_monotone)
  have fit: "get_string_width site toc_font (''ab'' @ '' '') \<le> title_col_width site"
    by (simp add: site_def title_col_width_def page_num_col_width_def)
  have wide: "\<forall>word \<in> set (split_sp ''abcd abcd abcd''). title_col_width site < get_string_width site toc_font word"
    by (simp add: site_def title_col_width_def page_num_col_width_def)
  have n: "length (split_sp ''abcd abcd abcd'') + 1 = 4" by simp
  have sp: "split_sp ''abcd abcd abcd'' = [''abcd'', ''abcd'', ''abcd'']" by simp
  have w1: "title_col_width site < get_string_width site toc_font ''abcd''"
    by (simp add: site_def title_col_width_def page_num_col_width_def)
  from title_lines_estimate [OF m, of "''ab''"] fit
  have one: "title_lines site toc_font ''ab'' = 1" by blast
  from title_lines_estimate [OF m, of "''abcd abcd abcd''"] wide
  have "title_lines site toc_font ''abcd abcd abcd'' = length (split_sp ''abcd abcd abcd'') + 1"
    by blast
  then have four: "title_lines site toc_font ''abcd abcd abcd'' = 4"
    by (simp only: n)
  from m fit one sp w1 four show ?thesis by blast
qed

text \<open>
  C2.  A title narrower than the title column is to be estimated at exactly 1 line, and a
  title of W words, each alone wider than the column, at exactly W lines.  The loop, whose
  comment says it calculates how many lines the title will take up in the cell, does
  neither: the title \<open>abc\<close> measures 150 in a column of 170 and the writer draws it in one
  line, yet with the appended space it measures 200 and the estimate is 2 lines; three
  words of 200 each give 4 lines, not 3, because the empty first line is counted.
\<close>

theorem title_lines_overcount:
  "get_string_width site toc_font ''abc'' < title_col_width site \<and>
   Suc (line_breaks site toc_font (title_col_width site) ''abc'') = 1 \<and>
   title_lines site toc_font ''abc'' = 2 \<and>
   split_sp ''abcd abcd abcd'' = [''abcd'', ''abcd'', ''abcd''] \<and>
   title_col_width site < get_string_width site toc_font ''abcd'' \<and>
   title_lines site toc_font ''abcd abcd abcd'' = 4"
  by (simp add: site_def title_col_width_def page_num_col_width_def title_lines_def)

section \<open>Drawing an entry of the table of contents\<close>

lemma page_no_multi_cell_same:
  assumes "cw \<noteq> 0" and "0 \<le> h"
    and "get_y d + real (Suc (line_breaks e (font d) cw txt)) * h \<le> page_break_trigger e"
  shows "page_no (multi_cell e cw h txt d) = page_no d"
proof -
  let ?n = "line_breaks e (font d) cw txt"
  have "get_y d + h \<le> get_y d + real (Suc ?n) * h"
    using assms(2) by (simp add: algebra_simps)
  with assms(3) have "get_y d + h \<le> page_break_trigger e" by linarith
  then have pb: "page_break e h d = d" by (rule page_break_id)
  let ?d1 = "cell e cw h txt 2 d"
  have d1: "?d1 = d\<lparr>drawn := drawn d @ [Text (page_no d) txt], get_y := get_y d + h\<rparr>"
    by (simp add: cell_def Let_def pb)
  have "get_y ?d1 + real ?n * h \<le> page_break_trigger e"
    using assms(3) by (simp add: d1 algebra_simps)
  from next_lines_same_page [OF assms(2) this]
  have "page_no ((next_line e h ^^ ?n) ?d1) = page_no ?d1" by simp
  then show ?thesis using assms(1) by (simp add: multi_cell_def Let_def d1)
qed

lemma page_no_toc_draw_le: "page_no d \<le> page_no (toc_draw e ttl pn th d)"
proof -
  let ?d1 = "multi_cell e (title_col_width e) line_height ttl d"
  let ?d2 = "set_xy e (l_margin e + title_col_width e) (get_y d) ?d1"
  have "page_no d \<le> page_no ?d1" by (rule page_no_multi_cell)
  also have "\<dots> = page_no ?d2" by simp
  also have "\<dots> \<le> page_no (cell e page_num_col_width th pn 1 ?d2)" by (rule page_no_cell)
  finally show ?thesis by (simp add: toc_draw_def Let_def)
qed

lemma get_y_toc_draw:
  assumes "0 \<le> get_y d" and "get_y d + th \<le> page_break_trigger e"
  shows "get_y (toc_draw e ttl pn th d) = get_y d + th + 4"
    and "page_no (toc_draw e ttl pn th d) = page_no (multi_cell e (title_col_width e) line_height ttl d)"
proof -
  let ?d1 = "multi_cell e (title_col_width e) line_height ttl d"
  let ?d2 = "set_xy e (l_margin e + title_col_width e) (get_y d) ?d1"
  have y2: "get_y ?d2 = get_y d" using assms(1) by (simp add: set_xy_def)
  then have "get_y ?d2 + th \<le> page_break_trigger e" using assms(2) by simp
  then have pb: "page_break e th ?d2 = ?d2" by (rule page_break_id)
  show "get_y (toc_draw e ttl pn th d) = get_y d + th + 4"
    using y2 by (simp add: toc_draw_def Let_def cell_def pb ln_def)
  show "page_no (toc_draw e ttl pn th d) = page_no ?d1"
    by (simp add: toc_draw_def Let_def cell_def pb)
qed

lemma title_height_ge: "line_height \<le> title_height e f ttl"
proof -
  have "1 \<le> title_lines e f ttl"
    unfolding title_lines_def by (rule count_lines_ge)
  then have "1 \<le> real (title_lines e f ttl)" by simp
  then have "1 * line_height \<le> real (title_lines e f ttl) * line_height"
    by (intro mult_right_mono) (simp_all add: line_height_def)
  then show ?thesis by (simp add: title_height_def)
qed

text \<open>
  C10.  For every title, the empty one and those without spaces included, the estimate is at
  least 1 line and the estimated height at least one line height, 7.  With the cursor on
  the page, an entry moves it forward: to a later page, or down by the estimated height
  plus the gap of 4.
\<close>

theorem title_lines_at_least_one:
  assumes "0 \<le> get_y d"
  shows "1 \<le> title_lines e f ttl \<and> 7 \<le> title_height e f ttl \<and>
         (page_no d < page_no (toc_entry e entry d) \<or>
          get_y (toc_entry e entry d) = get_y d + title_height e (font d) (toc_title entry) + 4 \<and>
          get_y d < get_y (toc_entry e entry d))"
proof (intro conjI)
  show "1 \<le> title_lines e f ttl"
    unfolding title_lines_def by (rule count_lines_ge)
  show "7 \<le> title_height e f ttl"
    using title_height_ge [of e f ttl] by (simp add: line_height_def)
  let ?th = "title_height e (font d) (toc_title entry)"
  have pos: "7 \<le> ?th"
    using title_height_ge [of e "font d" "toc_title entry"] by (simp add: line_height_def)
  show "page_no d < page_no (toc_entry e entry d) \<or>
        get_y (toc_entry e entry d) = get_y d + ?th + 4 \<and> get_y d < get_y (toc_entry e entry d)"
  proof (cases "get_y d + ?th \<ge> page_break_trigger e")
    case True
    then have "toc_guard e ?th d = add_page e d" by (simp add: toc_guard_def)
    then have "page_no (toc_entry e entry d) \<ge> page_no (add_page e d)"
      using page_no_toc_draw_le [of "add_page e d" e "toc_title entry" "str_nat (toc_page entry)" ?th]
      by (simp add: toc_entry_def Let_def)
    then show ?thesis by (simp add: page_no_add_page)
  next
    case False
    then have g: "toc_guard e ?th d = d" by (simp add: toc_guard_def)
    from False have "get_y d + ?th \<le> page_break_trigger e" by simp
    from get_y_toc_draw(1) [OF assms this]
    have "get_y (toc_entry e entry d) = get_y d + ?th + 4"
      by (simp add: toc_entry_def Let_def g)
    with pos show ?thesis by simp
  qed
qed

theorem title_lines_at_least_one_witness:
  "0 \<le> get_y (toc_cursor 250) \<and>
   1 \<le> title_lines site toc_font ''ab'' \<and> 7 \<le> title_height site toc_font ''ab'' \<and>
   (page_no (toc_cursor 250) < page_no (toc_entry site \<lparr>toc_title = ''ab'', toc_page = 2\<rparr> (toc_cursor 250)) \<or>
    get_y (toc_entry site \<lparr>toc_title = ''ab'', toc_page = 2\<rparr> (toc_cursor 250)) =
      get_y (toc_cursor 250) + title_height site (font (toc_cursor 250)) ''ab'' + 4 \<and>
    get_y (toc_cursor 250) < get_y (toc_entry site \<lparr>toc_title = ''ab'', toc_page = 2\<rparr> (toc_cursor 250)))"
proof -
  have y: "0 \<le> get_y (toc_cursor 250)" by (simp add: toc_cursor_def)
  from title_lines_at_least_one [OF y, of site toc_font "''ab''" "\<lparr>toc_title = ''ab'', toc_page = 2\<rparr>"] y
  show ?thesis by simp
qed

text \<open>
  C3.  Before an entry is drawn, a cursor position plus estimated height at or beyond the
  page-break trigger starts a new page first.  When the estimated height fits on a page
  and the writer breaks the title into no more lines than estimated, the whole entry is
  drawn on the page the check leaves it on.
\<close>

theorem toc_entry_not_split:
  assumes fits: "t_margin e + title_height e (font d) (toc_title entry) \<le> page_break_trigger e"
    and agree: "Suc (line_breaks e (font d) (title_col_width e) (toc_title entry))
                  \<le> title_lines e (font d) (toc_title entry)"
    and col: "0 < title_col_width e"
    and y0: "0 \<le> get_y d"
    and t0: "0 \<le> t_margin e"
  shows "(get_y d + title_height e (font d) (toc_title entry) \<ge> page_break_trigger e \<longrightarrow>
            toc_guard e (title_height e (font d) (toc_title entry)) d = add_page e d) \<and>
         toc_entry e entry d =
           toc_draw e (toc_title entry) (str_nat (toc_page entry))
             (title_height e (font d) (toc_title entry))
             (toc_guard e (title_height e (font d) (toc_title entry)) d) \<and>
         page_no (toc_entry e entry d) =
           page_no (toc_guard e (title_height e (font d) (toc_title entry)) d)"
proof -
  let ?ttl = "toc_title entry"
  let ?th = "title_height e (font d) ?ttl"
  let ?g = "toc_guard e ?th d"
  have fg: "font ?g = font d"
    by (simp add: toc_guard_def add_page_def footer_def Let_def)
  have yg: "0 \<le> get_y ?g"
    using y0 t0 by (simp add: toc_guard_def add_page_def footer_def Let_def)
  have room: "get_y ?g + ?th \<le> page_break_trigger e"
    using fits by (simp add: toc_guard_def add_page_def footer_def Let_def)
  have "real (Suc (line_breaks e (font d) (title_col_width e) ?ttl)) \<le> real (title_lines e (font d) ?ttl)"
    using agree by (simp only: of_nat_le_iff)
  then have "real (Suc (line_breaks e (font d) (title_col_width e) ?ttl)) * line_height \<le> ?th"
    unfolding title_height_def by (intro mult_right_mono) (simp_all add: line_height_def)
  with room have lines:
    "get_y ?g + real (Suc (line_breaks e (font ?g) (title_col_width e) ?ttl)) * line_height
       \<le> page_break_trigger e"
    by (simp add: fg)
  have "page_no (multi_cell e (title_col_width e) line_height ?ttl ?g) = page_no ?g"
    using col lines by (intro page_no_multi_cell_same) (simp_all add: line_height_def)
  with get_y_toc_draw(2) [OF yg room, of ?ttl "str_nat (toc_page entry)"]
  have same: "page_no (toc_draw e ?ttl (str_nat (toc_page entry)) ?th ?g) = page_no ?g" by simp
  have unfold: "toc_entry e entry d = toc_draw e ?ttl (str_nat (toc_page entry)) ?th ?g"
    by (simp add: toc_entry_def Let_def)
  show ?thesis
    using same unfold by (simp add: toc_guard_def)
qed

lemma title_height_ab: "title_height site toc_font ''ab'' = 7"
  by (simp add: title_height_def title_lines_def site_simps)

theorem toc_entry_not_split_witness:
  "t_margin site + title_height site (font (toc_cursor 270)) ''ab'' \<le> page_break_trigger site \<and>
   Suc (line_breaks site (font (toc_cursor 270)) (title_col_width site) ''ab'')
     \<le> title_lines site (font (toc_cursor 270)) ''ab'' \<and>
   0 < title_col_width site \<and> 0 \<le> get_y (toc_cursor 270) \<and> 0 \<le> t_margin site \<and>
   get_y (toc_cursor 270) + title_height site (font (toc_cursor 270)) ''ab'' \<ge> page_break_trigger site \<and>
   toc_guard site (title_height site (font (toc_cursor 270)) ''ab'') (toc_cursor 270)
     = add_page site (toc_cursor 270) \<and>
   page_no (toc_entry site \<lparr>toc_title = ''ab'', toc_page = 2\<rparr> (toc_cursor 270)) = 5"
proof -
  let ?d = "toc_cursor 270"
  let ?entry = "\<lparr>toc_title = ''ab'', toc_page = 2\<rparr>"
  have fnt: "font ?d = toc_font" by (simp add: toc_cursor_def)
  have fits: "t_margin site + title_height site (font ?d) (toc_title ?entry) \<le> page_break_trigger site"
    by (simp add: fnt title_height_ab) (simp add: site_def)
  have agree: "Suc (line_breaks site (font ?d) (title_col_width site) (toc_title ?entry))
                 \<le> title_lines site (font ?d) (toc_title ?entry)"
    by (simp add: fnt title_lines_def site_simps)
  have col: "0 < title_col_width site" by (simp add: site_simps)
  have y0: "0 \<le> get_y ?d" by (simp add: toc_cursor_def)
  have t0: "0 \<le> t_margin site" by (simp add: site_def)
  have trig: "get_y ?d + title_height site (font ?d) (toc_title ?entry) \<ge> page_break_trigger site"
    by (simp add: fnt title_height_ab) (simp add: site_def toc_cursor_def)
  have pg: "page_no (add_page site ?d) = 5"
    by (simp add: page_no_add_page toc_cursor_def)
  note main = toc_entry_not_split [OF fits agree col y0 t0]
  from main trig
  have g: "toc_guard site (title_height site (font ?d) (toc_title ?entry)) ?d = add_page site ?d"
    by blast
  from main have "page_no (toc_entry site ?entry ?d)
      = page_no (toc_guard site (title_height site (font ?d) (toc_title ?entry)) ?d)"
    by blast
  then have p: "page_no (toc_entry site ?entry ?d) = 5"
    by (simp only: g pg)
  from fits agree col y0 t0 trig g p show ?thesis by simp
qed

text \<open>
  Without the agreement on lines the entry can be split.  A title of twelve glyphs without
  a space is estimated at 2 lines, 14 high, and fits at 250 below a trigger of 277; the
  writer breaks it into four lines, and the fourth goes to the next page, taking the page
  number with it.
\<close>

lemma title_height_twelve: "title_height site toc_font ''aaaaaaaaaaaa'' = 14"
  by (simp add: title_height_def title_lines_def site_simps)

lemma title_col_width_site: "title_col_width site = 170"
  by (simp add: site_simps)

lemma line_breaks_twelve: "line_breaks site toc_font 170 ''aaaaaaaaaaaa'' = 3"
  by (simp add: site_def)

lemma multi_cell_twelve: "multi_cell site 170 7 ''aaaaaaaaaaaa'' (toc_cursor 250) =
   \<lparr>page_no = 5, get_x = 10, get_y = 17, font = toc_font,
    drawn = [Text 4 ''aaaaaaaaaaaa'', Text 4 ''Page 4'']\<rparr>"
proof -
  have f: "font (toc_cursor 250) = toc_font" by (simp add: toc_cursor_def)
  have g: "l_margin site = 10" "t_margin site = 10" "page_break_trigger site = 277"
    by (simp_all add: site_def)
  have s: "str_nat 4 = ''4''" by (simp add: str_nat.simps digit_char_def)
  show ?thesis
    unfolding multi_cell_def Let_def
    by (simp add: f line_breaks_twelve numeral_3_eq_3 cell_def next_line_def page_break_def add_page_def
        footer_def g s Let_def)
      (simp add: toc_cursor_def s)
qed

theorem toc_entry_split_counterexample:
  "t_margin site + title_height site toc_font ''aaaaaaaaaaaa'' \<le> page_break_trigger site \<and>
   get_y (toc_cursor 250) + title_height site toc_font ''aaaaaaaaaaaa'' < page_break_trigger site \<and>
   page_no (toc_cursor 250) = 4 \<and>
   toc_entry site \<lparr>toc_title = ''aaaaaaaaaaaa'', toc_page = 2\<rparr> (toc_cursor 250) =
     \<lparr>page_no = 5, get_x = 10, get_y = 268, font = toc_font,
      drawn = [Text 4 ''aaaaaaaaaaaa'', Text 4 ''Page 4'', Text 5 ''2'']\<rparr>"
proof -
  have f: "font (toc_cursor 250) = toc_font" "get_y (toc_cursor 250) = 250"
    "page_no (toc_cursor 250) = 4"
    by (simp_all add: toc_cursor_def)
  have g: "l_margin site = 10" "t_margin site = 10" "page_break_trigger site = 277"
    by (simp_all add: site_def)
  have s: "str_nat 2 = ''2''" by (simp add: str_nat.simps digit_char_def)
  have "toc_entry site \<lparr>toc_title = ''aaaaaaaaaaaa'', toc_page = 2\<rparr> (toc_cursor 250) =
     \<lparr>page_no = 5, get_x = 10, get_y = 268, font = toc_font,
      drawn = [Text 4 ''aaaaaaaaaaaa'', Text 4 ''Page 4'', Text 5 ''2'']\<rparr>"
    by (simp add: toc_entry_def toc_guard_def toc_draw_def Let_def f g s title_height_twelve title_col_width_site line_height_def
        multi_cell_twelve set_xy_def cell_def page_break_def ln_def page_num_col_width_def)
  then show ?thesis by (simp add: f g title_height_twelve)
qed

section \<open>Failures inside a chapter\<close>

lemma drawn_page_break: "set (drawn d) \<subseteq> set (drawn (page_break e h d))"
  by (auto simp: page_break_def add_page_def footer_def Let_def)

lemma drawn_next_line: "set (drawn d) \<subseteq> set (drawn (next_line e h d))"
  using drawn_page_break [of d e h] by (simp add: next_line_def Let_def)

lemma drawn_next_lines: "set (drawn d) \<subseteq> set (drawn ((next_line e h ^^ n) d))"
proof (induction n)
  case 0
  show ?case by simp
next
  case (Suc n)
  have "set (drawn ((next_line e h ^^ n) d)) \<subseteq> set (drawn (next_line e h ((next_line e h ^^ n) d)))"
    by (rule drawn_next_line)
  with Suc show ?case by auto
qed

lemma drawn_cell: "set (drawn d) \<union> {Text (page_no (page_break e h d)) txt} \<subseteq> set (drawn (cell e cw h txt nl d))"
  using drawn_page_break [of d e h] by (auto simp: cell_def Let_def)

lemma drawn_multi_cell:
  "set (drawn d) \<union> {Text (page_no (page_break e h d)) txt} \<subseteq> set (drawn (multi_cell e cw h txt d))"
proof -
  let ?cw = "if cw = 0 then pdf_w e - r_margin e - get_x d else cw"
  let ?d1 = "cell e ?cw h txt 2 d"
  have "set (drawn d) \<union> {Text (page_no (page_break e h d)) txt} \<subseteq> set (drawn ?d1)"
    by (rule drawn_cell)
  also have "\<dots> \<subseteq> set (drawn ((next_line e h ^^ line_breaks e (font d) ?cw txt) ?d1))"
    by (rule drawn_next_lines)
  finally show ?thesis by (simp add: multi_cell_def Let_def)
qed

lemma drawn_add_page: "set (drawn d) \<subseteq> set (drawn (add_page e d))"
  by (auto simp: add_page_def footer_def Let_def)

lemma drawn_ln [simp]: "drawn (ln e h d) = drawn d"
  by (simp add: ln_def)

lemma drawn_set_font [simp]: "drawn (set_font f d) = drawn d"
  by (simp add: set_font_def)

lemma drawn_set_xy [simp]: "drawn (set_xy e px py d) = drawn d"
  by (simp add: set_xy_def)

lemma drawn_multi_cell_mono: "set (drawn d) \<subseteq> set (drawn (multi_cell e cw h txt d))"
  using drawn_multi_cell [of d e h _ cw] by simp

lemma drawn_cell_mono: "set (drawn d) \<subseteq> set (drawn (cell e cw h txt nl d))"
  using drawn_cell [of d e h _ cw nl] by simp

lemma drawn_image: "image e file data iw d = Inr d' \<Longrightarrow> set (drawn d) \<subseteq> set (drawn d')"
proof -
  assume a: "image e file data iw d = Inr d'"
  then obtain h where h: "image_height e data iw = Inr h"
    by (cases "image_height e data iw") (simp_all add: image_def)
  with a have "drawn d' = drawn (page_break e h d) @ [Picture (page_no (page_break e h d)) file]"
    by (auto simp: image_def Let_def)
  with drawn_page_break [of d e h] show ?thesis by auto
qed

lemma drawn_add_chapter_image:
  "add_chapter_image e i ch soup d = Inr d' \<Longrightarrow> set (drawn d) \<subseteq> set (drawn d')"
proof -
  assume a: "add_chapter_image e i ch soup d = Inr d'"
  show ?thesis
  proof (cases "d' = d")
    case True
    then show ?thesis by simp
  next
    case False
    with a obtain fname data iw d1 where "image e fname data iw d = Inr d1" and "d' = ln e 5 d1"
      by (fastforce simp: add_chapter_image_def split: option.splits sum.splits)
    then show ?thesis using drawn_image [of e fname data iw d d1] by simp
  qed
qed

lemma drawn_paragraphs:
  "set (drawn d) \<subseteq> set (drawn (fold (\<lambda>p acc. ln e 3 (multi_cell e 0 7 (g p) acc)) ps d))"
proof (induction ps arbitrary: d)
  case Nil
  show ?case by simp
next
  case (Cons p ps)
  have "set (drawn d) \<subseteq> set (drawn (ln e 3 (multi_cell e 0 7 (g p) d)))"
    by (simp add: drawn_multi_cell_mono)
  also have "\<dots> \<subseteq> set (drawn (fold (\<lambda>p acc. ln e 3 (multi_cell e 0 7 (g p) acc)) ps (ln e 3 (multi_cell e 0 7 (g p) d))))"
    by (rule Cons.IH)
  finally show ?case by simp
qed

lemma drawn_add_chapter_text: "set (drawn d) \<subseteq> set (drawn (add_chapter_text e soup d))"
proof (cases "find_class soup ''div'' ''work-reader-body-panel''")
  case None
  have "set (drawn (set_font (''ArmenianFont'', ''I'', 12) d)) \<subseteq>
        set (drawn (multi_cell e 0 10 ''Could not find text content for this chapter.''
            (set_font (''ArmenianFont'', ''I'', 12) d)))"
    by (rule drawn_multi_cell_mono)
  with None show ?thesis by (simp add: add_chapter_text_def)
next
  case (Some content_div)
  let ?d1 = "set_font (''ArmenianFont'', [], 12) d"
  have a: "set (drawn ?d1) \<subseteq> set (drawn (fold (\<lambda>p acc. ln e 3 (multi_cell e 0 7 (get_text_sep_strip p) acc)) ps ?d1))" for ps
    by (rule drawn_paragraphs)
  have b: "set (drawn ?d1) \<subseteq> set (drawn (multi_cell e 0 7 t ?d1))" for t
    by (rule drawn_multi_cell_mono)
  from Some a b show ?thesis
    by (simp add: add_chapter_text_def Let_def)
qed

lemma drawn_chapter_content:
  "chapter_content e i ch d = Inr d' \<Longrightarrow> set (drawn d) \<subseteq> set (drawn d')"
proof -
  assume a: "chapter_content e i ch d = Inr d'"
  then obtain r where r: "requests_get e (url ch) = Inr r"
    by (cases "requests_get e (url ch)") (simp_all add: chapter_content_def)
  with a have s: "raise_for_status r = Inr ()"
    by (cases "raise_for_status r") (simp_all add: chapter_content_def)
  from a r s obtain d1 where
    img: "add_chapter_image e i ch (BeautifulSoup e (content r)) d = Inr d1"
    by (cases "add_chapter_image e i ch (BeautifulSoup e (content r)) d")
      (simp_all add: chapter_content_def Let_def)
  from a r s img have d': "d' = add_chapter_text e (BeautifulSoup e (content r)) d1"
    by (simp add: chapter_content_def Let_def)
  have "set (drawn d) \<subseteq> set (drawn d1)" using img by (rule drawn_add_chapter_image)
  also have "\<dots> \<subseteq> set (drawn d')" unfolding d' by (rule drawn_add_chapter_text)
  finally show ?thesis .
qed

lemma drawn_chapter_heading:
  "set (drawn d) \<union>
     {Text (page_no (page_break e 10 (set_font (''ArmenianFont'', ''B'', 16) d))) (title ch)}
   \<subseteq> set (drawn (chapter_heading e ch d))"
  using drawn_multi_cell [of "set_font (''ArmenianFont'', ''B'', 16) d" e 10 "title ch" 0]
  by (simp add: chapter_heading_def)

lemma drawn_after_heading:
  "set (drawn (chapter_heading e ch (add_page e (fst st)))) \<subseteq> set (drawn (fst (render_chapter e i ch st)))"
proof -
  let ?d2 = "chapter_heading e ch (add_page e (fst st))"
  let ?f = "set_font (''ArmenianFont'', ''I'', 12) ?d2"
  have m: "set (drawn ?d2) \<subseteq> set (drawn (multi_cell e 0 10 t ?f))" for t
    using drawn_multi_cell_mono [of ?f e 0 10 t] by simp
  show ?thesis
  proof (cases "chapter_content e i ch ?d2")
    case (Inl err)
    with m show ?thesis by (simp add: render_chapter_def Let_def)
  next
    case (Inr d3)
    with drawn_chapter_content [OF Inr] show ?thesis by (simp add: render_chapter_def Let_def)
  qed
qed

lemma drawn_render_chapter: "set (drawn (fst st)) \<subseteq> set (drawn (fst (render_chapter e i ch st)))"
proof -
  have "set (drawn (fst st)) \<subseteq> set (drawn (add_page e (fst st)))" by (rule drawn_add_page)
  also have "\<dots> \<subseteq> set (drawn (chapter_heading e ch (add_page e (fst st))))"
    using drawn_chapter_heading [of "add_page e (fst st)" e ch] by simp
  also have "\<dots> \<subseteq> set (drawn (fst (render_chapter e i ch st)))" by (rule drawn_after_heading)
  finally show ?thesis .
qed

lemma heading_render_chapter:
  "\<exists>p > page_no (fst st). Text p (title ch) \<in> set (drawn (fst (render_chapter e i ch st)))"
proof -
  let ?d1 = "add_page e (fst st)"
  let ?b = "set_font (''ArmenianFont'', ''B'', 16) ?d1"
  have "page_no ?b \<le> page_no (page_break e 10 ?b)" by (rule page_no_page_break)
  then have p: "page_no (fst st) < page_no (page_break e 10 ?b)" by (simp add: page_no_add_page)
  have "Text (page_no (page_break e 10 ?b)) (title ch) \<in> set (drawn (chapter_heading e ch ?d1))"
    using drawn_chapter_heading [of ?d1 e ch] by simp
  then have "Text (page_no (page_break e 10 ?b)) (title ch) \<in> set (drawn (fst (render_chapter e i ch st)))"
    using drawn_after_heading [of e ch st i] by blast
  with p show ?thesis by blast
qed

lemma page_no_render_chapters: "page_no (fst st) \<le> page_no (fst (render_chapters e i chapters st))"
proof (induction chapters arbitrary: i st)
  case Nil
  show ?case by simp
next
  case (Cons ch chapters)
  have "page_no (fst st) \<le> page_no (fst (render_chapter e i ch st))"
    using page_no_render_chapter [of st e i ch] by simp
  also have "\<dots> \<le> page_no (fst (render_chapters e (Suc i) chapters (render_chapter e i ch st)))"
    by (rule Cons.IH)
  finally show ?case by simp
qed

lemma drawn_render_chapters:
  "set (drawn (fst st)) \<subseteq> set (drawn (fst (render_chapters e i chapters st)))"
proof (induction chapters arbitrary: i st)
  case Nil
  show ?case by simp
next
  case (Cons ch chapters)
  have "set (drawn (fst st)) \<subseteq> set (drawn (fst (render_chapter e i ch st)))"
    by (rule drawn_render_chapter)
  also have "\<dots> \<subseteq> set (drawn (fst (render_chapters e (Suc i) chapters (render_chapter e i ch st))))"
    by (rule Cons.IH)
  finally show ?case by simp
qed

lemma headings_render_chapters:
  "c \<in> set chapters \<Longrightarrow>
   \<exists>p > page_no (fst st). Text p (title c) \<in> set (drawn (fst (render_chapters e i chapters st)))"
proof (induction chapters arbitrary: i st)
  case Nil
  then show ?case by simp
next
  case (Cons ch chapters)
  let ?r = "render_chapter e i ch st"
  show ?case
  proof (cases "c = ch")
    case True
    from heading_render_chapter [of st ch e i]
    obtain p where p: "page_no (fst st) < p" "Text p (title ch) \<in> set (drawn (fst ?r))" by blast
    from p(2) drawn_render_chapters [of ?r e "Suc i" chapters]
    have "Text p (title ch) \<in> set (drawn (fst (render_chapters e (Suc i) chapters ?r)))" by blast
    with p(1) True show ?thesis by (auto intro!: exI [of _ p])
  next
    case False
    with Cons.prems have "c \<in> set chapters" by simp
    from Cons.IH [OF this, of ?r "Suc i"]
    obtain p where p: "page_no (fst ?r) < p"
      "Text p (title c) \<in> set (drawn (fst (render_chapters e (Suc i) chapters ?r)))" by blast
    have "page_no (fst st) < page_no (fst ?r)"
      using page_no_render_chapter [of st e i ch] by simp
    with p(1) have "page_no (fst st) < p" by linarith
    with p(2) show ?thesis by (auto intro!: exI [of _ p])
  qed
qed

lemma drawn_toc_entry: "set (drawn d) \<subseteq> set (drawn (toc_entry e entry d))"
proof -
  let ?th = "title_height e (font d) (toc_title entry)"
  let ?g = "toc_guard e ?th d"
  let ?d1 = "multi_cell e (title_col_width e) line_height (toc_title entry) ?g"
  let ?d2 = "set_xy e (l_margin e + title_col_width e) (get_y ?g) ?d1"
  have "set (drawn d) \<subseteq> set (drawn ?g)"
    using drawn_add_page [of d e] by (simp add: toc_guard_def)
  also have "\<dots> \<subseteq> set (drawn ?d1)" by (rule drawn_multi_cell_mono)
  also have "\<dots> = set (drawn ?d2)" by simp
  also have "\<dots> \<subseteq> set (drawn (cell e page_num_col_width ?th (str_nat (toc_page entry)) 1 ?d2))"
    by (rule drawn_cell_mono)
  finally show ?thesis by (simp add: toc_entry_def toc_draw_def Let_def)
qed

lemma drawn_toc_entries: "set (drawn d) \<subseteq> set (drawn (fold (toc_entry e) toc d))"
proof (induction toc arbitrary: d)
  case Nil
  show ?case by simp
next
  case (Cons entry toc)
  have "set (drawn d) \<subseteq> set (drawn (toc_entry e entry d))" by (rule drawn_toc_entry)
  also have "\<dots> \<subseteq> set (drawn (fold (toc_entry e) toc (toc_entry e entry d)))" by (rule Cons.IH)
  finally show ?case by simp
qed

lemma drawn_toc_heading: "set (drawn d) \<subseteq> set (drawn (toc_heading e d))"
proof -
  have "set (drawn d) \<subseteq> set (drawn (add_page e d))" by (rule drawn_add_page)
  also have "\<dots> \<subseteq> set (drawn (cell e 0 15 ''Table of Contents'' 1
      (set_font (''ArmenianFont'', ''B'', 20) (add_page e d))))"
    using drawn_cell_mono [of "set_font (''ArmenianFont'', ''B'', 20) (add_page e d)" e 0 15 "''Table of Contents''" 1]
    by simp
  finally show ?thesis by (simp add: toc_heading_def)
qed

lemma run_finished:
  assumes "fonts_found e"
  shows "\<exists>saved file doc.
           create_book_pdf e book_title chapters =
             Finished saved file doc (snd (render_chapters e 0 chapters (title_page e book_title, []))) \<and>
           set (drawn (fst (render_chapters e 0 chapters (title_page e book_title, [])))) \<subseteq> set (drawn doc)"
proof -
  let ?st = "render_chapters e 0 chapters (title_page e book_title, [])"
  let ?d = "fold (toc_entry e) (snd ?st) (toc_heading e (fst ?st))"
  have "set (drawn (fst ?st)) \<subseteq> set (drawn (toc_heading e (fst ?st)))" by (rule drawn_toc_heading)
  also have "\<dots> \<subseteq> set (drawn ?d)" by (rule drawn_toc_entries)
  also have "\<dots> \<subseteq> set (drawn (footer ?d))" by (auto simp: footer_def)
  finally have "set (drawn (fst ?st)) \<subseteq> set (drawn (footer ?d))" .
  moreover have "create_book_pdf e book_title chapters =
      Finished (\<not> output_fails e) (sanitize_filename book_title @ ''.pdf'') (footer ?d) (snd ?st)"
    using assms by (simp add: create_book_pdf_def Let_def)
  ultimately show ?thesis by blast
qed

lemma run_continues:
  assumes "fonts_found e"
  shows "\<exists>saved file doc toc.
           create_book_pdf e book_title (before @ ch # after) = Finished saved file doc toc \<and>
           length toc = length before + 1 + length after \<and>
           map toc_title toc = map title before @ title ch # map title after \<and>
           toc ! length before =
             \<lparr>toc_title = title ch,
              toc_page = Suc (page_no (fst (render_chapters e 0 before (title_page e book_title, []))))\<rparr> \<and>
           set (drawn (fst (render_chapter e (length before) ch
                  (render_chapters e 0 before (title_page e book_title, []))))) \<subseteq> set (drawn doc) \<and>
           (\<forall>c \<in> set after. \<exists>p > Suc (page_no (fst (render_chapters e 0 before (title_page e book_title, [])))).
               Text p (title c) \<in> set (drawn doc))"
proof -
  let ?st0 = "(title_page e book_title, []::TocEntry list)"
  let ?s = "render_chapters e 0 before ?st0"
  let ?r = "render_chapter e (length before) ch ?s"
  let ?all = "render_chapters e 0 (before @ ch # after) ?st0"
  from run_finished [OF assms, of book_title "before @ ch # after"]
  obtain saved fname doc where
    fin: "create_book_pdf e book_title (before @ ch # after) = Finished saved fname doc (snd ?all)"
    and sub: "set (drawn (fst ?all)) \<subseteq> set (drawn doc)" by blast
  have split: "?all = render_chapters e (Suc (length before)) after ?r"
    by (simp add: render_chapters_append)
  have len: "length (snd ?all) = length before + 1 + length after"
    by (simp add: length_render_chapters)
  have titles: "map toc_title (snd ?all) = map title before @ title ch # map title after"
    by (simp add: render_chapters_titles)
  have nth: "snd ?all ! length before = \<lparr>toc_title = title ch, toc_page = Suc (page_no (fst ?s))\<rparr>"
    using render_chapters_split [of e before ch after ?st0] by (simp add: page_no_add_page)
  have "set (drawn (fst ?r)) \<subseteq> set (drawn (fst ?all))"
    unfolding split by (rule drawn_render_chapters)
  with sub have kept: "set (drawn (fst ?r)) \<subseteq> set (drawn doc)" by blast
  have later: "\<forall>c \<in> set after. \<exists>p > Suc (page_no (fst ?s)). Text p (title c) \<in> set (drawn doc)"
  proof
    fix c assume "c \<in> set after"
    from headings_render_chapters [OF this, of ?r e "Suc (length before)"]
    obtain p where p: "page_no (fst ?r) < p" "Text p (title c) \<in> set (drawn (fst ?all))"
      unfolding split by blast
    have "Suc (page_no (fst ?s)) \<le> page_no (fst ?r)" by (rule page_no_render_chapter)
    with p(1) have lt: "Suc (page_no (fst ?s)) < p" by linarith
    from p(2) sub have "Text p (title c) \<in> set (drawn doc)" by (rule subsetD [rotated])
    with lt show "\<exists>p > Suc (page_no (fst ?s)). Text p (title c) \<in> set (drawn doc)"
      by (intro exI [of _ p] conjI)
  qed
  from fin len titles nth kept later show ?thesis by blast
qed

lemma chapter_content_fetch_error:
  assumes "requests_get e (url ch) = Inl (RequestException msg) \<or>
           (\<exists>r. requests_get e (url ch) = Inr r \<and> raise_for_status r = Inl (RequestException msg))"
  shows "chapter_content e i ch d = Inl (RequestException msg)"
  using assms by (auto simp: chapter_content_def)




text \<open>
  C6.  When the fetch of a chapter's page raises a network error, the chapter's turn of the
  loop ends with the inline message written after the heading and nothing else, and the
  entry for the table of contents is there with the page the chapter began on.  The run is
  not aborted: it goes through to the save, with an entry for every chapter, those after
  the failed one included, each of them with its heading in the document on a later page,
  and with the failed chapter's heading and message still in the document.
\<close>

theorem chapter_fetch_error_isolated:
  assumes "requests_get e (url ch) = Inl (RequestException msg) \<or>
           (\<exists>r. requests_get e (url ch) = Inr r \<and> raise_for_status r = Inl (RequestException msg))"
  shows "(let st = render_chapters e 0 before (title_page e book_title, []);
              heading = chapter_heading e ch (add_page e (fst st));
              entry = \<lparr>toc_title = title ch, toc_page = Suc (page_no (fst st))\<rparr>;
              d = multi_cell e 0 10 (''Error fetching content: '' @ msg)
                    (set_font (''ArmenianFont'', ''I'', 12) heading)
          in render_chapter e (length before) ch st = (d, snd st @ [entry]) \<and>
             (\<exists>p \<ge> toc_page entry. Text p (title ch) \<in> set (drawn d)) \<and>
             (\<exists>p \<ge> toc_page entry. Text p (''Error fetching content: '' @ msg) \<in> set (drawn d)) \<and>
             (fonts_found e \<longrightarrow>
               (\<exists>saved file doc toc.
                  create_book_pdf e book_title (before @ ch # after) = Finished saved file doc toc \<and>
                  length toc = length before + 1 + length after \<and>
                  map toc_title toc = map title before @ title ch # map title after \<and>
                  toc ! length before = entry \<and>
                  set (drawn d) \<subseteq> set (drawn doc) \<and>
                  (\<forall>c \<in> set after. \<exists>p > toc_page entry. Text p (title c) \<in> set (drawn doc)))))"
proof -
  let ?st = "render_chapters e 0 before (title_page e book_title, [])"
  let ?d1 = "add_page e (fst ?st)"
  let ?b = "set_font (''ArmenianFont'', ''B'', 16) ?d1"
  let ?heading = "chapter_heading e ch ?d1"
  let ?i = "set_font (''ArmenianFont'', ''I'', 12) ?heading"
  let ?d = "multi_cell e 0 10 (''Error fetching content: '' @ msg) ?i"
  let ?entry = "\<lparr>toc_title = title ch, toc_page = Suc (page_no (fst ?st))\<rparr>"
  have r: "render_chapter e (length before) ch ?st = (?d, snd ?st @ [?entry])"
    by (simp add: render_chapter_def Let_def chapter_content_fetch_error [OF assms] page_no_add_page)
  have p1: "Suc (page_no (fst ?st)) \<le> page_no (page_break e 10 ?b)"
    using page_no_page_break [of ?b e 10] by (simp add: page_no_add_page)
  have "Text (page_no (page_break e 10 ?b)) (title ch) \<in> set (drawn ?heading)"
    using drawn_chapter_heading [of ?d1 e ch] by simp
  then have t: "Text (page_no (page_break e 10 ?b)) (title ch) \<in> set (drawn ?d)"
    using drawn_multi_cell_mono [of ?i e 0 10 "''Error fetching content: '' @ msg"] by auto
  have "Suc (page_no (fst ?st)) \<le> page_no ?heading"
    using page_no_chapter_heading [of ?d1 e ch] by (simp add: page_no_add_page)
  then have p2: "Suc (page_no (fst ?st)) \<le> page_no (page_break e 10 ?i)"
    using page_no_page_break [of ?i e 10] by simp
  have m: "Text (page_no (page_break e 10 ?i)) (''Error fetching content: '' @ msg) \<in> set (drawn ?d)"
    using drawn_multi_cell [of ?i e 10 "''Error fetching content: '' @ msg" 0] by simp
  from p1 t have a: "\<exists>p \<ge> toc_page ?entry. Text p (title ch) \<in> set (drawn ?d)"
    by (intro exI [of _ "page_no (page_break e 10 ?b)"]) simp
  from p2 m have b: "\<exists>p \<ge> toc_page ?entry. Text p (''Error fetching content: '' @ msg) \<in> set (drawn ?d)"
    by (intro exI [of _ "page_no (page_break e 10 ?i)"]) simp
  have c: "fonts_found e \<longrightarrow>
       (\<exists>saved file doc toc.
          create_book_pdf e book_title (before @ ch # after) = Finished saved file doc toc \<and>
          length toc = length before + 1 + length after \<and>
          map toc_title toc = map title before @ title ch # map title after \<and>
          toc ! length before = ?entry \<and>
          set (drawn ?d) \<subseteq> set (drawn doc) \<and>
          (\<forall>c \<in> set after. \<exists>p > toc_page ?entry. Text p (title c) \<in> set (drawn doc)))"
  proof
    assume "fonts_found e"
    from run_continues [OF this, of book_title before ch after] show "\<exists>saved file doc toc.
          create_book_pdf e book_title (before @ ch # after) = Finished saved file doc toc \<and>
          length toc = length before + 1 + length after \<and>
          map toc_title toc = map title before @ title ch # map title after \<and>
          toc ! length before = ?entry \<and>
          set (drawn ?d) \<subseteq> set (drawn doc) \<and>
          (\<forall>c \<in> set after. \<exists>p > toc_page ?entry. Text p (title c) \<in> set (drawn doc))"
      by (simp add: r)
  qed
  from r a b c show ?thesis
    unfolding Let_def by (intro conjI)
qed

text \<open>The second chapter of the small site cannot be fetched; the first comes after it here.\<close>

theorem chapter_fetch_error_isolated_witness:
  "requests_get site (url ch_two) = Inl (RequestException ''connection refused'') \<and>
   fonts_found site \<and>
   render_chapter site 0 ch_two (title_page site ''Book'', []) =
     (multi_cell site 0 10 ''Error fetching content: connection refused''
        (set_font (''ArmenianFont'', ''I'', 12)
          (chapter_heading site ch_two (add_page site (title_page site ''Book'')))),
      [\<lparr>toc_title = ''Two'', toc_page = 2\<rparr>]) \<and>
   (\<exists>saved file doc toc.
      create_book_pdf site ''Book'' [ch_two, ch_one] = Finished saved file doc toc \<and>
      map toc_title toc = [''Two'', ''One''] \<and>
      toc ! 0 = \<lparr>toc_title = ''Two'', toc_page = 2\<rparr> \<and>
      (\<exists>p > 2. Text p ''One'' \<in> set (drawn doc)))"
proof -
  have h: "requests_get site (url ch_two) = Inl (RequestException ''connection refused'')"
    by (simp add: site_def ch_two_def digilib_url_def)
  have f: "fonts_found site" by (simp add: fonts_found_def site_def)
  note t = chapter_fetch_error_isolated
         [where before = "[]" and after = "[ch_one]" and book_title = "''Book''", OF disjI1 [OF h],
          unfolded Let_def]
  from t [THEN conjunct1]
  have r: "render_chapter site 0 ch_two (title_page site ''Book'', []) =
     (multi_cell site 0 10 ''Error fetching content: connection refused''
        (set_font (''ArmenianFont'', ''I'', 12)
          (chapter_heading site ch_two (add_page site (title_page site ''Book'')))),
      [\<lparr>toc_title = ''Two'', toc_page = 2\<rparr>])"
    by (simp add: ch_two_def page_no_title_page_site)
  from t [THEN conjunct2, THEN conjunct2, THEN conjunct2, THEN mp, OF f]
  have "\<exists>saved file doc toc.
      create_book_pdf site ''Book'' [ch_two, ch_one] = Finished saved file doc toc \<and>
      map toc_title toc = [''Two'', ''One''] \<and>
      toc ! 0 = \<lparr>toc_title = ''Two'', toc_page = 2\<rparr> \<and>
      (\<exists>p > 2. Text p ''One'' \<in> set (drawn doc))"
    by (auto simp: ch_one_def ch_two_def page_no_title_page_site numeral_2_eq_2)
  with h f r show ?thesis by blast
qed








section \<open>Book Discovery\<close>

text \<open>
  Once the title lookup has gone through, the result is decided by the table of contents
  alone: an error for a missing container, an error for a container without links, and
  otherwise the title with the chapters in link order.
\<close>

lemma get_book_details_structure:
  assumes "requests_get e main_url = Inr r" and "raise_for_status r = Inr ()"
    and "book_title_tag (BeautifulSoup e (content r)) = Inr tag"
  shows "get_book_details e main_url =
     (case find_class (BeautifulSoup e (content r)) ''div'' ''tree well'' of
        None \<Rightarrow> Inl (ValueError ''Could not find the table of contents (div with class tree well).'')
      | Some toc_div \<Rightarrow>
          if find_all_href toc_div ''a'' = []
          then Inl (ValueError ''No chapters found in the table of contents.'')
          else Inr (case tag of Some t \<Rightarrow> strip (get_text t) | None \<Rightarrow> ''Untitled Book'',
                    chapter_links e main_url toc_div))"
  using assms
  by (simp add: get_book_details_def Let_def chapter_links_def split: option.splits)

lemma book_title_tag_without_panel:
  "find_class soup ''div'' ''product-details-panel'' = None \<Longrightarrow> book_title_tag soup = Inr None"
  by (simp add: book_title_tag_def)

text \<open>An error of Book Discovery ends the script: no document is started.\<close>

lemma main_stops_on_error: "get_book_details e digilib_url = Inl err \<Longrightarrow> main e = Inl err"
  by (simp add: main_def)

text \<open>
  C8.  A main page without a title element is meant to give the placeholder title.  On a
  page whose details panel holds no inner \<open>div\<close> the lookup itself raises: there is no
  \<open>h1\<close> anywhere, the table of contents has a link, and the result is an
  \<open>AttributeError\<close> instead of the placeholder and the chapter.
\<close>

theorem title_lookup_raises:
  "find page_panel_without_div ''h1'' = None \<and>
   find_class page_panel_without_div ''div'' ''tree well'' \<noteq> None \<and>
   get_book_details site_panel_without_div digilib_url
     = Inl (AttributeError ''NoneType object has no attribute find'')"
  by (simp add: get_book_details_def site_panel_without_div_def site_def raise_for_status_def
      page_panel_without_div_def book_title_tag_def find_class_def find_def find_all_def)

text \<open>
  C5.  Book Discovery is meant to fail with the structure error exactly when the table of
  contents is missing or empty.  On a page without the container, whose details panel holds
  no inner \<open>div\<close>, it fails earlier and with another error.
\<close>

theorem missing_toc_raises_attribute_error:
  "find_class page_panel_without_div_or_toc ''div'' ''tree well'' = None \<and>
   get_book_details site_panel_without_div_or_toc digilib_url
     = Inl (AttributeError ''NoneType object has no attribute find'')"
  by (simp add: get_book_details_def site_panel_without_div_or_toc_def site_def raise_for_status_def
      page_panel_without_div_or_toc_def book_title_tag_def find_class_def find_def find_all_def)

end
